theory Spec2Isabelle
  imports Main "HOL-Library.AList"
begin

section \<open>The host syntax tree\<close>

text \<open>
  The extractor reads a TypeScript syntax tree through the compiler API. Only the node
  kinds the sources test for are kept apart; every other expression is
  \<open>OtherExpression\<close>. A string literal remembers the quote character its source text
  opens with, a numeric literal both its \<open>.text\<close> and its \<open>.getText()\<close>, a function
  or arrow expression its source text.
\<close>

datatype quote_char = doubleQuote | singleQuote

datatype expression =
    StringLiteral quote_char string
  | NoSubstitutionTemplateLiteral string
  | NumericLiteral string string
  | Identifier string
  | TrueKeyword
  | FalseKeyword
  | NullKeyword
  | ArrayLiteralExpression "expression list"
  | ObjectLiteralExpression "object_literal_element list"
  | FunctionExpression string
  | ArrowFunction string
  | OtherExpression
and object_literal_element =
    PropertyAssignment property_name expression
  | ShorthandPropertyAssignment string
  | SpreadAssignment expression
  | MethodDeclaration
  | GetAccessorDeclaration
  | SetAccessorDeclaration
and property_name =
    IdentifierName string
  | LiteralName expression
  | ComputedPropertyName expression
  | PrivateIdentifier string

datatype statement =
    ImportDeclaration expression
  | ExportDeclaration "expression option"
  | OtherStatement

record call_expression =
  arguments :: "expression list"

text \<open>
  \<open>findCreateMachineCalls\<close> walks the whole tree of a file and collects the calls
  named \<open>createMachine\<close> in visiting order. The walk is the host's; a source file of
  the model holds its top-level statements and the calls the walk returns.
\<close>

record source_file =
  statements :: "statement list"
  createMachineCalls :: "call_expression list"

definition findCreateMachineCalls :: "source_file \<Rightarrow> call_expression list" where
  "findCreateMachineCalls sourceFile = createMachineCalls sourceFile"

section \<open>Errors\<close>

text \<open>
  Soft errors are pushed on the extraction context; hard errors are thrown. Of the hard
  errors, \<open>Unreachable\<close> is \<open>assertUnreachable\<close>, \<open>TypeError\<close> a property read of
  \<open>undefined\<close>, and \<open>PatchError\<close> whatever the patch library throws.
\<close>

datatype extraction_error =
    state_unhandled
  | state_property_unhandled
  | state_property_invalid
  | state_type_invalid
  | state_history_invalid
  | transition_property_unhandled
  | transition_target_unresolved
  | action_unhandled
  | property_key_unhandled_computed
  | property_key_unhandled_private
  | property_key_no_roundtrip
  | property_unhandled

datatype hard_error =
    AssertionFailed
  | InvalidNode
  | NotImplemented
  | FileNotFound
  | MachineNotFound
  | Unreachable
  | TypeError
  | PatchError

section \<open>Utilities\<close>

definition isStringLiteralLike :: "expression \<Rightarrow> bool" where
  "isStringLiteralLike e =
     (case e of StringLiteral q t \<Rightarrow> True | NoSubstitutionTemplateLiteral t \<Rightarrow> True | _ \<Rightarrow> False)"

text \<open>The \<open>.text\<close> of a string-like literal (asked for only after \<open>isStringLiteralLike\<close>).\<close>

definition literal_text :: "expression \<Rightarrow> string" where
  "literal_text e =
     (case e of StringLiteral q t \<Rightarrow> t | NoSubstitutionTemplateLiteral t \<Rightarrow> t | _ \<Rightarrow> [])"


definition isPropertyAssignment :: "object_literal_element \<Rightarrow> bool" where
  "isPropertyAssignment p = (case p of PropertyAssignment n e \<Rightarrow> True | _ \<Rightarrow> False)"

definition isUndefined :: "expression \<Rightarrow> bool" where
  "isUndefined e = (case e of Identifier s \<Rightarrow> s = ''undefined'' | _ \<Rightarrow> False)"

text \<open>
  \<open>getLiteralText\<close> and \<open>getPropertyKey\<close> return their result together with the soft
  errors they push, in order; the caller appends them to the context's list.
\<close>

fun getLiteralText :: "expression \<Rightarrow> string option \<times> extraction_error list" where
  "getLiteralText (StringLiteral q t) = (Some t, [])"
| "getLiteralText (NoSubstitutionTemplateLiteral t) = (Some t, [])"
| "getLiteralText (NumericLiteral t src) =
     (Some src, if src \<noteq> t then [property_key_no_roundtrip] else [])"
| "getLiteralText e = (None, [])"

fun getPropertyKey :: "property_name \<Rightarrow> string option \<times> extraction_error list" where
  "getPropertyKey (IdentifierName s) = (Some s, [])"
| "getPropertyKey (LiteralName e) = getLiteralText e"
| "getPropertyKey (ComputedPropertyName e) =
     (case getLiteralText e of
        (Some t, es) \<Rightarrow> (Some t, es)
      | (None, es) \<Rightarrow> (None, es @ [property_key_unhandled_computed]))"
| "getPropertyKey (PrivateIdentifier s) = (None, [property_key_unhandled_private])"

text \<open>A key is used only when it is truthy: present and not the empty string.\<close>

definition truthy :: "string option \<Rightarrow> bool" where
  "truthy k = (case k of None \<Rightarrow> False | Some s \<Rightarrow> s \<noteq> [])"

text \<open>
  The maps of the source that are keyed by strings of the input are plain objects
  (\<open>{}\<close>). Reading such an object at a key that is not one of its own finds what
  \<open>Object.prototype\<close> holds under that name: a function, or for \<open>__proto__\<close> the prototype
  itself. The names are those of the ECMAScript standard library, which is not among the
  sources. Writing at \<open>__proto__\<close> adds no key of its own.
\<close>

definition Object_prototype_names :: "string list" where
  "Object_prototype_names =
     [''constructor'', ''__defineGetter__'', ''__defineSetter__'', ''hasOwnProperty'',
      ''__lookupGetter__'', ''__lookupSetter__'', ''isPrototypeOf'', ''propertyIsEnumerable'',
      ''toString'', ''valueOf'', ''__proto__'', ''toLocaleString'']"

definition inherited :: "string \<Rightarrow> bool" where
  "inherited k \<longleftrightarrow> k \<in> set Object_prototype_names"

text \<open>
  \<open>findProperty\<close> scans the properties from the last to the first and returns the first
  property assignment it meets whose key is the one asked for, with the soft errors the
  key reads pushed on the way.
\<close>

fun findProperty_scan ::
  "object_literal_element list \<Rightarrow> string \<Rightarrow>
     (property_name \<times> expression) option \<times> extraction_error list" where
  "findProperty_scan [] key = (None, [])"
| "findProperty_scan (PropertyAssignment n e # ps) key =
     (case getPropertyKey n of (k, es) \<Rightarrow>
        if k = Some key then (Some (n, e), es)
        else (case findProperty_scan ps key of (r, es') \<Rightarrow> (r, es @ es')))"
| "findProperty_scan (p # ps) key = findProperty_scan ps key"

definition findProperty ::
  "object_literal_element list \<Rightarrow> string \<Rightarrow>
     (property_name \<times> expression) option \<times> extraction_error list" where
  "findProperty props key = findProperty_scan (rev props) key"

text \<open>
  \<open>getPreferredQuoteCharCode\<close>: the statements are read in order, and the first import
  or export declaration whose module specifier is a string literal decides.
\<close>

fun getPreferredQuoteCharCode_scan :: "statement list \<Rightarrow> quote_char" where
  "getPreferredQuoteCharCode_scan [] = doubleQuote"
| "getPreferredQuoteCharCode_scan (ImportDeclaration (StringLiteral q t) # ss) = q"
| "getPreferredQuoteCharCode_scan (ExportDeclaration (Some (StringLiteral q t)) # ss) = q"
| "getPreferredQuoteCharCode_scan (s # ss) = getPreferredQuoteCharCode_scan ss"

definition getPreferredQuoteCharCode :: "source_file \<Rightarrow> quote_char" where
  "getPreferredQuoteCharCode sourceFile = getPreferredQuoteCharCode_scan (statements sourceFile)"

section \<open>The digraph\<close>

text \<open>
  JSON values read from \<open>context\<close> and \<open>meta\<close>. A number keeps the literal's text
  (the source converts it to a float); an object is its entries in insertion order.
\<close>

datatype json =
    JString string
  | JNumber string
  | JBool bool
  | JNull
  | JArray "json list"
  | JObject "(string \<times> json) list"

text \<open>
  A node and its data. The state type and the history kind are the strings the source
  stores. \<open>data.key\<close> is read by the target-descriptor synthesizer; the root's key is
  \<open>(machine)\<close>, a child's key is its property name under \<open>states\<close>.
\<close>

record node_data =
  nkey :: string
  ninitial :: "string option"
  ntype :: string
  nhistory :: "string option"
  nmetaEntries :: "(string \<times> json option) list"
  nentry :: "string list"
  nexit :: "string list"
  ninvoke :: "string list"
  ntags :: "string list"
  ndescription :: "string option"

record node =
  nuniqueId :: string
  nparentId :: "string option"
  ndata :: node_data

datatype event_type_data =
    ETafter
  | ETnamed string
  | ETinvocation_done string
  | ETinvocation_error string
  | ETstate_done
  | ETalways
  | ETwildcard
  | ETinit

record edge_data =
  eeventTypeData :: event_type_data
  eactions :: "string list"
  eguard :: "string option"
  edescription :: "string option"
  einternal :: bool

record edge =
  euniqueId :: string
  esource :: string
  etargets :: "string list"
  edata :: edge_data

datatype block_properties =
    ActionProperties string
  | ActorProperties string string

datatype block_type = action | actor

record block =
  blockType :: block_type
  buniqueId :: string
  bparentId :: string
  sourceId :: string
  properties :: block_properties

datatype implementation_type = action_impl | actor_impl | guard_impl

record implementation =
  impl_type :: implementation_type
  impl_id :: string
  impl_name :: string

record implementations =
  impl_actions :: "string \<rightharpoonup> implementation"
  impl_actors :: "string \<rightharpoonup> implementation"
  impl_guards :: "string \<rightharpoonup> implementation"

text \<open>
  The digraph under construction, and the extracted one, which adds the root's id.
\<close>

record digraph =
  nodes :: "string \<rightharpoonup> node"
  edges :: "string \<rightharpoonup> edge"
  edgeRefs :: "string list"
  blocks :: "string \<rightharpoonup> block"
  implementations :: implementations
  data_context :: json

record digraph_def = digraph +
  root :: string

text \<open>
  A structural locator is the list of property indices leading from the first argument
  of the call to a literal. The id map of a machine state sends a node id to its
  declared \<open>id\<close>.
\<close>

type_synonym ast_path = "nat list"

record ast_paths =
  ap_nodes :: "string \<rightharpoonup> ast_path"
  ap_edges :: "string \<rightharpoonup> ast_path"

record project_machine_state =
  pms_digraph :: "digraph_def option"
  pms_errors :: "extraction_error list"
  pms_astPaths :: ast_paths
  pms_idMap :: "(string \<times> string) list"

section \<open>Results of operations that may throw or fail to return\<close>

text \<open>
  An operation of the patch engine either returns a value, throws a hard error, or, where
  it follows parent links of a digraph that may be cyclic, does not return:
  \<open>Some (Inr x)\<close>, \<open>Some (Inl e)\<close> and \<open>None\<close>.
\<close>

type_synonym 'a outcome = "(hard_error + 'a) option"

definition returns :: "'a \<Rightarrow> 'a outcome" where
  "returns x = Some (Inr x)"

definition throws :: "hard_error \<Rightarrow> 'a outcome" where
  "throws e = Some (Inl e)"

definition and_then :: "'a outcome \<Rightarrow> ('a \<Rightarrow> 'b outcome) \<Rightarrow> 'b outcome" where
  "and_then m f = (case m of None \<Rightarrow> None | Some (Inl e) \<Rightarrow> Some (Inl e) | Some (Inr x) \<Rightarrow> f x)"

definition lift :: "hard_error + 'a \<Rightarrow> 'a outcome" where
  "lift r = Some r"

section \<open>The target-descriptor synthesizer\<close>

definition DEFAULT_ROOT_ID :: string where
  "DEFAULT_ROOT_ID = ''(machine)''"

fun join_dot :: "string list \<Rightarrow> string" where
  "join_dot [] = []"
| "join_dot [s] = s"
| "join_dot (s # t # ss) = s @ CHR ''.'' # join_dot (t # ss)"

text \<open>\<open>xs.slice(0, -k)\<close>; with \<open>k = 0\<close> it is \<open>xs.slice(0, 0)\<close>, the empty list.\<close>

definition slice_to_minus :: "'a list \<Rightarrow> nat \<Rightarrow> 'a list" where
  "slice_to_minus xs k = (if k = 0 then [] else take (length xs - k) xs)"

text \<open>\<open>id || DEFAULT_ROOT_ID\<close>\<close>

definition id_or_default :: "string option \<Rightarrow> string" where
  "id_or_default i = (if truthy i then the i else DEFAULT_ROOT_ID)"

text \<open>
  \<open>getPathNodes\<close> follows \<open>parentId\<close> while it is truthy. A parent id that is not a key
  of \<open>nodes\<close> makes the next test read a property of \<open>undefined\<close>; on a cyclic digraph
  the loop does not end.
\<close>

partial_function (option) getPathNodes_loop ::
  "(string \<rightharpoonup> node) \<Rightarrow> node \<Rightarrow> node list \<Rightarrow> (hard_error + node list) option" where
  "getPathNodes_loop ns current acc =
     (case nparentId current of
        None \<Rightarrow> Some (Inr acc)
      | Some p \<Rightarrow>
          if p = [] then Some (Inr acc)
          else (case ns p of
                  None \<Rightarrow> Some (Inl TypeError)
                | Some n \<Rightarrow> getPathNodes_loop ns n (acc @ [n])))"

definition getPathNodes :: "digraph_def \<Rightarrow> node \<Rightarrow> node list outcome" where
  "getPathNodes d n = getPathNodes_loop (nodes d) n [n]"

text \<open>
  The last loop of \<open>getBestTargetDescriptor\<close>: \<open>i\<close> counts up, the last argument counts
  the iterations left; leaving the loop reaches \<open>assertUnreachable\<close>.
\<close>

fun descriptor_climb ::
  "digraph_def \<Rightarrow> (string \<times> string) list \<Rightarrow> node list \<Rightarrow> nat \<Rightarrow> node option \<Rightarrow> nat \<Rightarrow>
     hard_error + string" where
  "descriptor_climb d idMap targetPathNodes i current 0 = Inl Unreachable"
| "descriptor_climb d idMap targetPathNodes i current (Suc k) =
     (case current of
        None \<Rightarrow> Inl TypeError
      | Some c \<Rightarrow>
          (let i_d = map_of idMap (nuniqueId c) in
           if truthy i_d \<or> \<not> truthy (nparentId c)
           then Inr (join_dot ((CHR ''#'' # id_or_default i_d)
                       # rev (map (\<lambda>n. nkey (ndata n)) (take i targetPathNodes))))
           else descriptor_climb d idMap targetPathNodes (Suc i)
                  (nodes d (the (nparentId c))) k))"

text \<open>
  Nodes are objects compared by identity in the source; the model compares the records,
  which is the same on a digraph whose entries carry their own key as \<open>uniqueId\<close>.
\<close>

definition getBestTargetDescriptor ::
  "string \<Rightarrow> string \<Rightarrow> project_machine_state \<Rightarrow> string outcome" where
  "getBestTargetDescriptor sourceI targetI st =
     (case pms_digraph st of
        None \<Rightarrow> throws AssertionFailed
      | Some d \<Rightarrow>
     (case nodes d targetI of
        None \<Rightarrow> throws TypeError
      | Some target \<Rightarrow>
          if \<not> truthy (nparentId target)
          then returns (CHR ''#'' # id_or_default (map_of (pms_idMap st) targetI))
          else if sourceI = targetI then returns (nkey (ndata target))
          else
            and_then (getPathNodes d target) (\<lambda>targetPathNodes.
            (case nodes d sourceI of
               None \<Rightarrow> throws TypeError
             | Some source \<Rightarrow>
            and_then (getPathNodes d source) (\<lambda>sourcePathNodes.
              (let commonNode = find (\<lambda>ancestor. ancestor \<in> set sourcePathNodes) targetPathNodes in
               if commonNode = Some source
               then returns (CHR ''.'' #
                      join_dot (rev (map (\<lambda>n. nkey (ndata n))
                        (slice_to_minus targetPathNodes (length sourcePathNodes)))))
               else if truthy (nparentId source) \<and> commonNode = nodes d (the (nparentId source))
               then returns
                      (join_dot (rev (map (\<lambda>n. nkey (ndata n))
                        (slice_to_minus targetPathNodes (length sourcePathNodes - 1)))))
               else if truthy (map_of (pms_idMap st) targetI)
               then returns (CHR ''#'' # the (map_of (pms_idMap st) targetI))
               else lift (descriptor_climb d (pms_idMap st) targetPathNodes 0 (Some target)
                            (length targetPathNodes))))))))"

section \<open>Code changes\<close>

text \<open>
  The elements \<open>c.undefined()\<close>, \<open>c.string(text, {allowMultiline})\<close>, \<open>c.boolean(b)\<close>,
  \<open>c.array(elements)\<close> and \<open>c.object(properties)\<close> handed to the code-change recorder; a
  property \<open>c.property(k, v)\<close> is the pair \<open>(k, v)\<close>.
\<close>

datatype insertion_element =
    c_undefined
  | c_string string bool
  | c_boolean bool
  | c_array "insertion_element list"
  | c_object "(string \<times> insertion_element) list"

datatype insertion_priority = States | Initial | StateType | History

datatype path_segment = PropertyKey string | ArrayIndex int

text \<open>
  The patch engine drives a recorder (\<open>createCodeChanges\<close>) and returns what its
  \<open>getTextEdits\<close> makes of the recorded requests. The model returns the requests
  themselves, in the order they were made. A request names the syntax node it is about;
  \<open>replaceRange\<close> names the node whose start and end bound the range.
\<close>

datatype patch_value =
    NodeValue node
  | EdgeValue edge
  | StringValue string
  | UndefinedValue

datatype code_change =
    insertAtOptionalObjectPath expression "path_segment list" insertion_element
      "insertion_priority option"
  | replacePropertyName "(property_name \<times> expression) option" patch_value
  | removeProperty "property_name \<times> expression"
  | replaceRange expression insertion_element
  | insertPropertyBeforeProperty "property_name \<times> expression" string insertion_element
  | insertPropertyIntoObject expression string insertion_element "insertion_priority option"

datatype patch_operation = op_add | op_remove | op_replace

record json_patch =
  patch_op :: patch_operation
  patch_path :: "string list"
  patch_val :: patch_value

section \<open>Writing a transition\<close>

fun descriptors ::
  "string \<Rightarrow> string list \<Rightarrow> project_machine_state \<Rightarrow> string list outcome" where
  "descriptors src [] st = returns []"
| "descriptors src (t # ts) st =
     and_then (getBestTargetDescriptor src t st) (\<lambda>d.
     and_then (descriptors src ts st) (\<lambda>ds. returns (d # ds)))"

definition toTransitionElement ::
  "edge \<Rightarrow> project_machine_state \<Rightarrow> insertion_element outcome" where
  "toTransitionElement e st =
     and_then
       (case etargets e of
          [] \<Rightarrow> returns c_undefined
        | [t] \<Rightarrow> and_then (getBestTargetDescriptor (esource e) t st) (\<lambda>d. returns (c_string d False))
        | ts \<Rightarrow> and_then (descriptors (esource e) ts st)
                 (\<lambda>ds. returns (c_array (map (\<lambda>d. c_string d False) ds))))
       (\<lambda>target.
     and_then
       (if truthy (eguard (edata e))
        then (case pms_digraph st of
                None \<Rightarrow> throws TypeError
              | Some d \<Rightarrow>
                  (case blocks d (the (eguard (edata e))) of
                     None \<Rightarrow> throws TypeError
                   | Some b \<Rightarrow> returns [(''guard'', c_string (sourceId b) False)]))
        else returns [])
       (\<lambda>guard.
          (let reenter = (if einternal (edata e) = False then [(''reenter'', c_boolean True)] else []);
               description =
                 (if truthy (edescription (edata e))
                  then [(''description'', c_string (the (edescription (edata e))) True)]
                  else []);
               transition = (''target'', target) # guard @ reenter @ description
           in if length transition = 1 then returns target
              else returns (c_object transition))))"

text \<open>\<open>xs.indexOf(x)\<close>\<close>

fun indexOf :: "string list \<Rightarrow> string \<Rightarrow> int" where
  "indexOf [] x = - 1"
| "indexOf (y # ys) x = (if y = x then 0 else (let i = indexOf ys x in if i < 0 then - 1 else i + 1))"

definition getTransitionInsertionPath ::
  "edge \<Rightarrow> project_machine_state \<Rightarrow> hard_error + path_segment list" where
  "getTransitionInsertionPath e st =
     (case pms_digraph st of
        None \<Rightarrow> Inl TypeError
      | Some d \<Rightarrow>
          (let source = nodes d (esource e) in
           case eeventTypeData (edata e) of
             ETafter \<Rightarrow> Inl NotImplemented
           | ETnamed eventType \<Rightarrow> Inr [PropertyKey ''on'', PropertyKey eventType]
           | ETinvocation_done invocationId \<Rightarrow>
               (case source of
                  None \<Rightarrow> Inl TypeError
                | Some s \<Rightarrow> Inr [PropertyKey ''invoke'',
                                  ArrayIndex (indexOf (ninvoke (ndata s)) invocationId),
                                  PropertyKey ''onDone''])
           | ETinvocation_error invocationId \<Rightarrow>
               (case source of
                  None \<Rightarrow> Inl TypeError
                | Some s \<Rightarrow> Inr [PropertyKey ''invoke'',
                                  ArrayIndex (indexOf (ninvoke (ndata s)) invocationId),
                                  PropertyKey ''onError''])
           | ETstate_done \<Rightarrow> Inr [PropertyKey ''onDone'']
           | ETalways \<Rightarrow> Inr [PropertyKey ''always'']
           | ETwildcard \<Rightarrow> Inl NotImplemented
           | ETinit \<Rightarrow> Inl NotImplemented))"

section \<open>The patch engine\<close>

definition nth_opt :: "'a list \<Rightarrow> nat \<Rightarrow> 'a option" where
  "nth_opt xs i = (if i < length xs then Some (xs ! i) else None)"

text \<open>
  \<open>findNodeByAstPath\<close> starts at the first argument of the call, which may be missing,
  and follows the property indices; the result may be \<open>undefined\<close> only for the empty
  path.
\<close>

fun findNodeByAstPath_walk ::
  "expression option \<Rightarrow> ast_path \<Rightarrow> hard_error + expression option" where
  "findNodeByAstPath_walk current [] = Inr current"
| "findNodeByAstPath_walk current (segment # path) =
     (case current of
        Some (ObjectLiteralExpression props) \<Rightarrow>
          (case nth_opt props segment of
             Some (PropertyAssignment n e) \<Rightarrow> findNodeByAstPath_walk (Some e) path
           | _ \<Rightarrow> Inl InvalidNode)
      | _ \<Rightarrow> Inl InvalidNode)"

definition findNodeByAstPath :: "call_expression \<Rightarrow> ast_path \<Rightarrow> hard_error + expression option" where
  "findNodeByAstPath call path = findNodeByAstPath_walk (nth_opt (arguments call) 0) path"

text \<open>
  The patch engine calls \<open>findProperty\<close> with no extraction context: a key read that
  would push a soft error reads \<open>errors\<close> of \<open>undefined\<close> instead.
\<close>

definition findProperty_noctx ::
  "object_literal_element list \<Rightarrow> string \<Rightarrow> hard_error + (property_name \<times> expression) option" where
  "findProperty_noctx props key =
     (case findProperty props key of (r, []) \<Rightarrow> Inr r | (r, e # es) \<Rightarrow> Inl TypeError)"

text \<open>
  \<open>findNodeByAstPath(ts, call, astPaths.nodes[id])\<close> followed by
  \<open>assert(ts.isObjectLiteralExpression(node))\<close>: a missing locator cannot be iterated, a
  missing node has no \<open>kind\<close>.
\<close>

definition object_literal_at ::
  "call_expression \<Rightarrow> project_machine_state \<Rightarrow> string option \<Rightarrow>
     hard_error + object_literal_element list" where
  "object_literal_at call st i =
     (case (case i of None \<Rightarrow> None | Some j \<Rightarrow> ap_nodes (pms_astPaths st) j) of
        None \<Rightarrow> Inl TypeError
      | Some path \<Rightarrow>
          (case findNodeByAstPath call path of
             Inl e \<Rightarrow> Inl e
           | Inr None \<Rightarrow> Inl TypeError
           | Inr (Some (ObjectLiteralExpression props)) \<Rightarrow> Inr props
           | Inr (Some other) \<Rightarrow> Inl AssertionFailed))"

text \<open>
  \<open>c.string(patch.value, ...)\<close>: the value of a replace patch on a string field is a
  string; a value of another shape is outside the patch's type and is modelled as a
  thrown \<open>TypeError\<close>.
\<close>

definition string_element :: "patch_value \<Rightarrow> bool \<Rightarrow> hard_error + insertion_element" where
  "string_element v allowMultiline =
     (case v of StringValue s \<Rightarrow> Inr (c_string s allowMultiline) | _ \<Rightarrow> Inl TypeError)"

text \<open>
  Replacing \<open>data.key\<close>: the property of the parent literal whose initializer is the
  node itself (compared by identity) is the one the locator's last index names; the
  root literal is the initializer of no property.
\<close>

definition replace_key ::
  "call_expression \<Rightarrow> project_machine_state \<Rightarrow> string option \<Rightarrow> patch_value \<Rightarrow>
     hard_error + code_change list" where
  "replace_key call st nodeId v =
     (case (case nodeId of None \<Rightarrow> None | Some j \<Rightarrow> ap_nodes (pms_astPaths st) j) of
        None \<Rightarrow> Inl TypeError
      | Some path \<Rightarrow>
          (case findNodeByAstPath call path of
             Inl e \<Rightarrow> Inl e
           | Inr nd \<Rightarrow>
               (case findNodeByAstPath call (butlast path) of
                  Inl e \<Rightarrow> Inl e
                | Inr None \<Rightarrow> Inl TypeError
                | Inr (Some (ObjectLiteralExpression props)) \<Rightarrow>
                    Inr [replacePropertyName
                          (if path = [] then None
                           else (case nth_opt props (last path) of
                                   Some (PropertyAssignment n e) \<Rightarrow> Some (n, e)
                                 | _ \<Rightarrow> None))
                          v]
                | Inr (Some other) \<Rightarrow> Inl AssertionFailed)))"

definition replace_initial ::
  "call_expression \<Rightarrow> project_machine_state \<Rightarrow> string option \<Rightarrow> patch_value \<Rightarrow>
     hard_error + code_change list" where
  "replace_initial call st nodeId v =
     (case object_literal_at call st nodeId of
        Inl e \<Rightarrow> Inl e
      | Inr props \<Rightarrow>
     (case findProperty_noctx props ''initial'' of
        Inl e \<Rightarrow> Inl e
      | Inr initialProp \<Rightarrow>
          if v = UndefinedValue
          then (case initialProp of Some p \<Rightarrow> Inr [removeProperty p] | None \<Rightarrow> Inr [])
          else
            (case initialProp of
               Some (n, initializer) \<Rightarrow>
                 (case string_element v False of
                    Inl e \<Rightarrow> Inl e
                  | Inr el \<Rightarrow> Inr [replaceRange initializer el])
             | None \<Rightarrow>
                 (case findProperty_noctx props ''states'' of
                    Inl e \<Rightarrow> Inl e
                  | Inr (Some statesProp) \<Rightarrow>
                      (case string_element v False of
                         Inl e \<Rightarrow> Inl e
                       | Inr el \<Rightarrow> Inr [insertPropertyBeforeProperty statesProp ''initial'' el])
                  | Inr None \<Rightarrow>
                      (case string_element v False of
                         Inl e \<Rightarrow> Inl e
                       | Inr el \<Rightarrow>
                           Inr [insertPropertyIntoObject (ObjectLiteralExpression props)
                                  ''initial'' el (Some Initial)])))))"

definition replace_type ::
  "call_expression \<Rightarrow> project_machine_state \<Rightarrow> string option \<Rightarrow> patch_value \<Rightarrow>
     hard_error + code_change list" where
  "replace_type call st nodeId v =
     (case object_literal_at call st nodeId of
        Inl e \<Rightarrow> Inl e
      | Inr props \<Rightarrow>
     (case findProperty_noctx props ''type'' of
        Inl e \<Rightarrow> Inl e
      | Inr typeProp \<Rightarrow>
          if v = StringValue ''normal''
          then (case typeProp of Some p \<Rightarrow> Inr [removeProperty p] | None \<Rightarrow> Inr [])
          else
            (case typeProp of
               Some (n, initializer) \<Rightarrow>
                 (case string_element v False of
                    Inl e \<Rightarrow> Inl e
                  | Inr el \<Rightarrow> Inr [replaceRange initializer el])
             | None \<Rightarrow>
                 (case string_element v False of
                    Inl e \<Rightarrow> Inl e
                  | Inr el \<Rightarrow>
                      Inr [insertPropertyIntoObject (ObjectLiteralExpression props)
                             ''type'' el (Some StateType)]))))"

definition replace_history ::
  "call_expression \<Rightarrow> project_machine_state \<Rightarrow> string option \<Rightarrow> patch_value \<Rightarrow>
     hard_error + code_change list" where
  "replace_history call st nodeId v =
     (case object_literal_at call st nodeId of
        Inl e \<Rightarrow> Inl e
      | Inr props \<Rightarrow>
     (case findProperty_noctx props ''history'' of
        Inl e \<Rightarrow> Inl e
      | Inr historyProp \<Rightarrow>
          if v = UndefinedValue \<or> v = StringValue ''shallow''
          then (case historyProp of Some p \<Rightarrow> Inr [removeProperty p] | None \<Rightarrow> Inr [])
          else
            (case historyProp of
               Some (n, initializer) \<Rightarrow>
                 (case string_element v False of
                    Inl e \<Rightarrow> Inl e
                  | Inr el \<Rightarrow> Inr [replaceRange initializer el])
             | None \<Rightarrow>
                 (case string_element v False of
                    Inl e \<Rightarrow> Inl e
                  | Inr el \<Rightarrow>
                      Inr [insertPropertyIntoObject (ObjectLiteralExpression props)
                             ''history'' el (Some History)]))))"

definition replace_description ::
  "call_expression \<Rightarrow> project_machine_state \<Rightarrow> string option \<Rightarrow> patch_value \<Rightarrow>
     hard_error + code_change list" where
  "replace_description call st nodeId v =
     (case object_literal_at call st nodeId of
        Inl e \<Rightarrow> Inl e
      | Inr props \<Rightarrow>
     (case findProperty_noctx props ''description'' of
        Inl e \<Rightarrow> Inl e
      | Inr descriptionProp \<Rightarrow>
          if v = UndefinedValue \<or> v = StringValue []
          then (case descriptionProp of Some p \<Rightarrow> Inr [removeProperty p] | None \<Rightarrow> Inr [])
          else
            (case string_element v True of
               Inl e \<Rightarrow> Inl e
             | Inr el \<Rightarrow>
                 (case descriptionProp of
                    Some (n, initializer) \<Rightarrow> Inr [replaceRange initializer el]
                  | None \<Rightarrow>
                      Inr [insertPropertyIntoObject (ObjectLiteralExpression props)
                             ''description'' el None]))))"

text \<open>
  Adding a node writes an empty state under \<open>states\<close> of the parent's literal. Adding
  an edge computes the insertion path, then the transition element, in that order.
\<close>

definition add_node ::
  "call_expression \<Rightarrow> project_machine_state \<Rightarrow> patch_value \<Rightarrow> hard_error + code_change list" where
  "add_node call st v =
     (case v of
        NodeValue newNode \<Rightarrow>
          (case object_literal_at call st (nparentId newNode) of
             Inl e \<Rightarrow> Inl e
           | Inr props \<Rightarrow>
               Inr [insertAtOptionalObjectPath (ObjectLiteralExpression props)
                      [PropertyKey ''states'', PropertyKey (nkey (ndata newNode))]
                      (c_object []) (Some States)])
      | _ \<Rightarrow> Inl TypeError)"

definition add_edge ::
  "call_expression \<Rightarrow> project_machine_state \<Rightarrow> patch_value \<Rightarrow> code_change list outcome" where
  "add_edge call st v =
     (case v of
        EdgeValue newEdge \<Rightarrow>
          and_then (lift (object_literal_at call st (Some (esource newEdge)))) (\<lambda>props.
          and_then (lift (getTransitionInsertionPath newEdge st)) (\<lambda>path.
          and_then (toTransitionElement newEdge st) (\<lambda>el.
            returns [insertAtOptionalObjectPath (ObjectLiteralExpression props) path el None])))
      | _ \<Rightarrow> throws TypeError)"

text \<open>
  The body of the loop over the patches. The tests on \<open>path[3]\<close> exclude one another,
  so the branches of the source that fall through to the next test are an
  \<open>if\<close>-\<open>else\<close> chain here.
\<close>

definition patch_changes ::
  "call_expression \<Rightarrow> project_machine_state \<Rightarrow> json_patch \<Rightarrow> code_change list outcome" where
  "patch_changes call st p =
     (case patch_op p of
        op_add \<Rightarrow>
          if nth_opt (patch_path p) 0 = Some ''nodes'' then lift (add_node call st (patch_val p))
          else if nth_opt (patch_path p) 0 = Some ''edges'' then add_edge call st (patch_val p)
          else returns []
      | op_remove \<Rightarrow> returns []
      | op_replace \<Rightarrow>
          if nth_opt (patch_path p) 0 = Some ''nodes'' then
            (let nodeId = nth_opt (patch_path p) 1;
                 field = (if nth_opt (patch_path p) 2 = Some ''data''
                          then nth_opt (patch_path p) 3 else None)
             in if field = Some ''key'' then lift (replace_key call st nodeId (patch_val p))
                else if field = Some ''initial'' then lift (replace_initial call st nodeId (patch_val p))
                else if field = Some ''type'' then lift (replace_type call st nodeId (patch_val p))
                else if field = Some ''history'' then lift (replace_history call st nodeId (patch_val p))
                else if field = Some ''description''
                  then lift (replace_description call st nodeId (patch_val p))
                else returns [])
          else returns [])"

fun patches_changes ::
  "call_expression \<Rightarrow> project_machine_state \<Rightarrow> json_patch list \<Rightarrow> code_change list outcome" where
  "patches_changes call st [] = returns []"
| "patches_changes call st (p # ps) =
     and_then (patch_changes call st p) (\<lambda>cs.
     and_then (patches_changes call st ps) (\<lambda>rest. returns (cs @ rest)))"

section \<open>The extraction context\<close>

text \<open>
  A tree node holds, for each child key, the child's tree node; the model stores the
  child's id, the key under which the context keeps it.
\<close>

record tree_node =
  tn_uniqueId :: string
  tn_parentId :: "string option"
  tn_children :: "string \<rightharpoonup> string"

text \<open>
  \<open>uniqueId()\<close> is a random token in the source, taken to be new at every call. The
  context counts the tokens drawn, and the \<open>n\<close>-th token is \<open>token n\<close>.
\<close>

record extraction_context =
  ctx_errors :: "extraction_error list"
  ctx_digraph :: digraph
  ctx_treeNodes :: "string \<rightharpoonup> tree_node"
  ctx_idToNodeIdMap :: "(string \<times> string) list"
  ctx_originalTargets :: "(string \<times> string list) list"
  ctx_astPaths :: ast_paths
  ctx_drawn :: nat

definition token :: "nat \<Rightarrow> string" where
  "token n = CHR ''u'' # replicate n CHR ''i''"

definition uniqueId :: "extraction_context \<Rightarrow> string \<times> extraction_context" where
  "uniqueId ctx = (token (ctx_drawn ctx), ctx\<lparr>ctx_drawn := Suc (ctx_drawn ctx)\<rparr>)"

definition push_errors :: "extraction_error list \<Rightarrow> extraction_context \<Rightarrow> extraction_context" where
  "push_errors es ctx = ctx\<lparr>ctx_errors := ctx_errors ctx @ es\<rparr>"

definition everyDefined :: "'a option list \<Rightarrow> bool" where
  "everyDefined arr = list_all (\<lambda>item. item \<noteq> None) arr"

text \<open>
  \<open>mapMaybeArrayElements\<close>, as \<open>state.ts\<close> calls it: the callback runs on every element
  of an array literal in order, or once on any other expression.
\<close>

fun map_elements ::
  "(extraction_context \<Rightarrow> expression \<Rightarrow> 'b \<times> extraction_context) \<Rightarrow>
     extraction_context \<Rightarrow> expression list \<Rightarrow> 'b list \<times> extraction_context" where
  "map_elements cb ctx [] = ([], ctx)"
| "map_elements cb ctx (e # es) =
     (case cb ctx e of (r, ctx1) \<Rightarrow>
        (case map_elements cb ctx1 es of (rs, ctx2) \<Rightarrow> (r # rs, ctx2)))"

definition mapMaybeArrayElements ::
  "expression \<Rightarrow> (extraction_context \<Rightarrow> expression \<Rightarrow> 'b \<times> extraction_context) \<Rightarrow>
     extraction_context \<Rightarrow> 'b list \<times> extraction_context" where
  "mapMaybeArrayElements e cb ctx =
     (case e of
        ArrayLiteralExpression elements \<Rightarrow> map_elements cb ctx elements
      | _ \<Rightarrow> (case cb ctx e of (r, ctx1) \<Rightarrow> ([r], ctx1)))"

section \<open>JSON values\<close>

fun getJsonValue :: "expression \<Rightarrow> json option \<times> extraction_error list"
and getJsonArray :: "expression list \<Rightarrow> json list \<Rightarrow> json option \<times> extraction_error list"
and getJsonObject ::
  "object_literal_element list \<Rightarrow> (string \<times> json) list \<Rightarrow> json option \<times> extraction_error list"
where
  "getJsonValue (StringLiteral q t) = (Some (JString t), [])"
| "getJsonValue (NoSubstitutionTemplateLiteral t) = (Some (JString t), [])"
| "getJsonValue (NumericLiteral t src) = (Some (JNumber t), [])"
| "getJsonValue TrueKeyword = (Some (JBool True), [])"
| "getJsonValue FalseKeyword = (Some (JBool False), [])"
| "getJsonValue NullKeyword = (Some JNull, [])"
| "getJsonValue (ArrayLiteralExpression elements) = getJsonArray elements []"
| "getJsonValue (ObjectLiteralExpression props) = getJsonObject props []"
| "getJsonValue (Identifier s) = (None, [])"
| "getJsonValue (FunctionExpression s) = (None, [])"
| "getJsonValue (ArrowFunction s) = (None, [])"
| "getJsonValue OtherExpression = (None, [])"
| "getJsonArray [] arr = (Some (JArray arr), [])"
| "getJsonArray (elem # elems) arr =
     (case getJsonValue elem of
        (None, es) \<Rightarrow> (None, es)
      | (Some v, es) \<Rightarrow>
          (case getJsonArray elems (arr @ [v]) of (r, es') \<Rightarrow> (r, es @ es')))"
| "getJsonObject [] obj = (Some (JObject obj), [])"
| "getJsonObject (PropertyAssignment n e # ps) obj =
     (case getPropertyKey n of (k, es) \<Rightarrow>
        if truthy k then
          (case getJsonValue e of
             (None, es1) \<Rightarrow> (None, es @ es1)
           | (Some v, es1) \<Rightarrow>
               (case getJsonObject ps
                       (if the k = ''__proto__'' then obj else AList.update (the k) v obj) of
                  (r, es2) \<Rightarrow> (r, es @ es1 @ es2)))
        else (case getJsonObject ps obj of (r, es2) \<Rightarrow> (r, es @ es2)))"
| "getJsonObject (ShorthandPropertyAssignment s # ps) obj = getJsonObject ps obj"
| "getJsonObject (SpreadAssignment e # ps) obj = getJsonObject ps obj"
| "getJsonObject (MethodDeclaration # ps) obj = getJsonObject ps obj"
| "getJsonObject (GetAccessorDeclaration # ps) obj = getJsonObject ps obj"
| "getJsonObject (SetAccessorDeclaration # ps) obj = getJsonObject ps obj"

section \<open>Blocks and edges\<close>

definition createActionBlock ::
  "string \<Rightarrow> string \<Rightarrow> extraction_context \<Rightarrow> block \<times> extraction_context" where
  "createActionBlock sourceI parentI ctx =
     (case uniqueId ctx of (blockId, ctx1) \<Rightarrow>
        (\<lparr>blockType = action, buniqueId = blockId, bparentId = parentI, sourceId = sourceI,
          properties = ActionProperties sourceI\<rparr>, ctx1))"

definition createActorBlock ::
  "string \<Rightarrow> string \<Rightarrow> string \<Rightarrow> extraction_context \<Rightarrow> block \<times> extraction_context" where
  "createActorBlock sourceI parentI actorId ctx =
     (case uniqueId ctx of (blockId, ctx1) \<Rightarrow>
        (\<lparr>blockType = actor, buniqueId = blockId, bparentId = parentI, sourceId = sourceI,
          properties = ActorProperties sourceI actorId\<rparr>, ctx1))"

definition createEdge ::
  "string \<Rightarrow> event_type_data \<Rightarrow> extraction_context \<Rightarrow> edge \<times> extraction_context" where
  "createEdge sourceI eventTypeData ctx =
     (case uniqueId ctx of (edgeId, ctx1) \<Rightarrow>
        (\<lparr>euniqueId = edgeId, esource = sourceI, etargets = [],
          edata = \<lparr>eeventTypeData = eventTypeData, eactions = [], eguard = None,
                    edescription = None, einternal = True\<rparr>\<rparr>, ctx1))"

definition isForbiddenTarget :: "expression \<Rightarrow> bool" where
  "isForbiddenTarget element = (isUndefined element \<or> element = NullKeyword)"

definition getObjectTransitionTargets ::
  "object_literal_element list \<Rightarrow> extraction_context \<Rightarrow>
     string option list option \<times> extraction_context" where
  "getObjectTransitionTargets transition ctx =
     (case findProperty transition ''target'' of (targetProperty, es) \<Rightarrow>
        (let ctx1 = push_errors es ctx in
         case targetProperty of
           None \<Rightarrow> (None, ctx1)
         | Some (n, initializer) \<Rightarrow>
             if isForbiddenTarget initializer then (None, ctx1)
             else (case mapMaybeArrayElements initializer
                          (\<lambda>c expression.
                             (if isStringLiteralLike expression
                              then Some (literal_text expression) else None, c))
                          ctx1 of
                     (targets, ctx2) \<Rightarrow> (Some targets, ctx2))))"

definition inline_id :: "string \<Rightarrow> string" where
  "inline_id t = ''inline:'' @ t"

definition extractActionBlock ::
  "string \<Rightarrow> extraction_context \<Rightarrow> expression \<Rightarrow> block option \<times> extraction_context" where
  "extractActionBlock parentI ctx element =
     (let inline = (\<lambda>c. case uniqueId c of (t, c1) \<Rightarrow>
                      (case createActionBlock (inline_id t) parentI c1 of
                         (b, c2) \<Rightarrow> (Some b, c2)))
      in
      if isUndefined element then (None, ctx)
      else if isStringLiteralLike element
      then (case createActionBlock (literal_text element) parentI ctx of (b, c1) \<Rightarrow> (Some b, c1))
      else (case element of
              ObjectLiteralExpression props \<Rightarrow>
                (case findProperty props ''type'' of (typeProperty, es) \<Rightarrow>
                   (let ctx1 = push_errors es ctx in
                    case typeProperty of
                      None \<Rightarrow> (None, ctx1)
                    | Some (n, initializer) \<Rightarrow>
                        if isStringLiteralLike initializer
                        then (case createActionBlock (literal_text initializer) parentI ctx1 of
                                (b, c1) \<Rightarrow> (Some b, c1))
                        else inline (push_errors [action_unhandled] ctx1)))
            | _ \<Rightarrow> inline ctx))"

definition extractActionBlocks ::
  "expression \<Rightarrow> string \<Rightarrow> extraction_context \<Rightarrow> block option list \<times> extraction_context" where
  "extractActionBlocks expression parentI ctx =
     mapMaybeArrayElements expression (extractActionBlock parentI) ctx"

text \<open>
  \<open>registerActionBlocks\<close> pushes the block ids on the parent's container and stores the
  blocks and, where none is there, their implementations: \<open>??=\<close> assigns only when the
  object reads \<open>undefined\<close> at the name, which it does not at an inherited name.
\<close>

definition register_action_implementation :: "string \<Rightarrow> digraph \<Rightarrow> digraph" where
  "register_action_implementation s d =
     (case impl_actions (implementations d) s of
        Some i \<Rightarrow> d
      | None \<Rightarrow>
          if inherited s then d
          else
            d\<lparr>implementations := (implementations d)
                \<lparr>impl_actions := (impl_actions (implementations d))
                   (s \<mapsto> \<lparr>impl_type = action_impl, impl_id = s, impl_name = s\<rparr>)\<rparr>\<rparr>)"

definition register_actor_implementation :: "string \<Rightarrow> digraph \<Rightarrow> digraph" where
  "register_actor_implementation s d =
     (case impl_actors (implementations d) s of
        Some i \<Rightarrow> d
      | None \<Rightarrow>
          if inherited s then d
          else
            d\<lparr>implementations := (implementations d)
                \<lparr>impl_actors := (impl_actors (implementations d))
                   (s \<mapsto> \<lparr>impl_type = actor_impl, impl_id = s, impl_name = s\<rparr>)\<rparr>\<rparr>)"

fun registerActionBlocks ::
  "block list \<Rightarrow> string list \<Rightarrow> extraction_context \<Rightarrow> string list \<times> extraction_context" where
  "registerActionBlocks [] parentContainer ctx = (parentContainer, ctx)"
| "registerActionBlocks (b # bs) parentContainer ctx =
     registerActionBlocks bs (parentContainer @ [buniqueId b])
       (ctx\<lparr>ctx_digraph := register_action_implementation (sourceId b)
              ((ctx_digraph ctx)\<lparr>blocks := (blocks (ctx_digraph ctx))(buniqueId b \<mapsto> b)\<rparr>)\<rparr>)"

fun registerActorBlocks ::
  "block list \<Rightarrow> string list \<Rightarrow> extraction_context \<Rightarrow> string list \<times> extraction_context" where
  "registerActorBlocks [] parentContainer ctx = (parentContainer, ctx)"
| "registerActorBlocks (b # bs) parentContainer ctx =
     registerActorBlocks bs (parentContainer @ [buniqueId b])
       (ctx\<lparr>ctx_digraph := register_actor_implementation (sourceId b)
              ((ctx_digraph ctx)\<lparr>blocks := (blocks (ctx_digraph ctx))(buniqueId b \<mapsto> b)\<rparr>)\<rparr>)"

section \<open>Edge groups\<close>

text \<open>
  The properties of an object transition are visited from the last to the first; a key
  met again is skipped. \<open>foldr\<close> applies the step to the last element first.
\<close>

definition transition_property ::
  "object_literal_element \<Rightarrow> extraction_context \<times> string set \<times> edge \<Rightarrow>
     extraction_context \<times> string set \<times> edge" where
  "transition_property prop s =
     (case s of (ctx, seen, e) \<Rightarrow>
        (case prop of
           PropertyAssignment n initializer \<Rightarrow>
             (case getPropertyKey n of (k, es) \<Rightarrow>
                (let ctx1 = push_errors es ctx in
                 if \<not> truthy k then (push_errors [transition_property_unhandled] ctx1, seen, e)
                 else if the k \<in> seen then (ctx1, seen, e)
                 else if the k = ''actions'' then
                   (case extractActionBlocks initializer (euniqueId e) ctx1 of (bs, ctx2) \<Rightarrow>
                      if \<not> everyDefined bs
                      then (push_errors [transition_property_unhandled] ctx2, insert (the k) seen, e)
                      else (case registerActionBlocks (map the bs) (eactions (edata e)) ctx2 of
                              (acts, ctx3) \<Rightarrow>
                                (ctx3, insert (the k) seen,
                                 e\<lparr>edata := (edata e)\<lparr>eactions := acts\<rparr>\<rparr>)))
                 else if the k = ''description'' then
                   (ctx1, insert (the k) seen,
                    e\<lparr>edata := (edata e)
                       \<lparr>edescription := (if isStringLiteralLike initializer
                                          then Some (literal_text initializer) else None)\<rparr>\<rparr>)
                 else (ctx1, insert (the k) seen, e)))
         | _ \<Rightarrow> (push_errors [transition_property_unhandled] ctx, seen, e)))"

definition extractEdge ::
  "string \<Rightarrow> event_type_data \<Rightarrow> extraction_context \<Rightarrow> expression \<Rightarrow>
     (edge \<times> string list option) option \<times> extraction_context" where
  "extractEdge sourceI eventTypeData ctx element =
     (if isForbiddenTarget element
      then (case createEdge sourceI eventTypeData ctx of (e, ctx1) \<Rightarrow> (Some (e, None), ctx1))
      else if isStringLiteralLike element
      then (case createEdge sourceI eventTypeData ctx of
              (e, ctx1) \<Rightarrow> (Some (e, Some [literal_text element]), ctx1))
      else (case element of
              ObjectLiteralExpression props \<Rightarrow>
                (case getObjectTransitionTargets props ctx of (targets, ctx1) \<Rightarrow>
                   if targets \<noteq> None \<and> \<not> everyDefined (the targets)
                   then (None, push_errors [transition_property_unhandled] ctx1)
                   else
                     (case createEdge sourceI eventTypeData ctx1 of (e, ctx2) \<Rightarrow>
                        (case foldr transition_property props (ctx2, {}, e) of
                           (ctx3, seen, e1) \<Rightarrow>
                             (Some (e1, map_option (map the) targets), ctx3))))
            | _ \<Rightarrow> (None, ctx)))"

fun register_edges ::
  "(edge \<times> string list option) list \<Rightarrow> extraction_context \<Rightarrow> extraction_context" where
  "register_edges [] ctx = ctx"
| "register_edges ((e, targets) # rest) ctx =
     register_edges rest
       (let ctx1 = ctx\<lparr>ctx_digraph :=
                     (ctx_digraph ctx)\<lparr>edges := (edges (ctx_digraph ctx))(euniqueId e \<mapsto> e)\<rparr>\<rparr>
        in case targets of
             None \<Rightarrow> ctx1
           | Some ts \<Rightarrow>
               ctx1\<lparr>ctx_originalTargets := AList.update (euniqueId e) ts (ctx_originalTargets ctx1)\<rparr>)"

definition extractEdgeGroup ::
  "expression \<Rightarrow> string \<Rightarrow> event_type_data \<Rightarrow> extraction_context \<Rightarrow> extraction_context" where
  "extractEdgeGroup initializer sourceI eventTypeData ctx =
     (case mapMaybeArrayElements initializer (extractEdge sourceI eventTypeData) ctx of
        (mapped, ctx1) \<Rightarrow>
          if \<not> everyDefined mapped then push_errors [transition_property_unhandled] ctx1
          else register_edges (map the mapped) ctx1)"

section \<open>States\<close>

text \<open>
  The node of a state is stored in the digraph when it is created and changed in place
  afterwards; the model rewrites the stored node.
\<close>

definition set_node_data ::
  "string \<Rightarrow> (node_data \<Rightarrow> node_data) \<Rightarrow> extraction_context \<Rightarrow> extraction_context" where
  "set_node_data i f ctx =
     (case nodes (ctx_digraph ctx) i of
        None \<Rightarrow> ctx
      | Some n \<Rightarrow>
          ctx\<lparr>ctx_digraph :=
                (ctx_digraph ctx)\<lparr>nodes := (nodes (ctx_digraph ctx))(i \<mapsto> n\<lparr>ndata := f (ndata n)\<rparr>)\<rparr>\<rparr>)"

definition get_node_data ::
  "string \<Rightarrow> (node_data \<Rightarrow> 'a list) \<Rightarrow> extraction_context \<Rightarrow> 'a list" where
  "get_node_data i f ctx = (case nodes (ctx_digraph ctx) i of None \<Rightarrow> [] | Some n \<Rightarrow> f (ndata n))"

text \<open>
  The loop over a state's properties either goes on to the next property or leaves
  \<open>extractState\<close> with \<open>undefined\<close>.
\<close>

datatype 'a flow = Next 'a | ReturnUndefined extraction_context

fun on_transitions ::
  "object_literal_element list \<Rightarrow> string \<Rightarrow> extraction_context \<Rightarrow> extraction_context flow" where
  "on_transitions [] nodeId ctx = Next ctx"
| "on_transitions (PropertyAssignment n initializer # ts) nodeId ctx =
     (case getPropertyKey n of (event, es) \<Rightarrow>
        (let ctx1 = push_errors es ctx in
         if \<not> truthy event
         then ReturnUndefined (push_errors [transition_property_unhandled] ctx1)
         else on_transitions ts nodeId
                (extractEdgeGroup initializer nodeId
                   (if the event = ''*'' then ETwildcard else ETnamed (the event)) ctx1)))"
| "on_transitions (p # ts) nodeId ctx =
     ReturnUndefined (push_errors [transition_property_unhandled] ctx)"

fun meta_entries ::
  "object_literal_element list \<Rightarrow> (string \<times> json option) list \<times> extraction_error list" where
  "meta_entries [] = ([], [])"
| "meta_entries (PropertyAssignment n e # ms) =
     (case getPropertyKey n of (metaKey, es) \<Rightarrow>
        if truthy metaKey then
          (case getJsonValue e of (v, es1) \<Rightarrow>
             (case meta_entries ms of (rest, es2) \<Rightarrow> ((the metaKey, v) # rest, es @ es1 @ es2)))
        else (case meta_entries ms of (rest, es2) \<Rightarrow> (rest, es @ es2)))"
| "meta_entries (p # ms) = meta_entries ms"

definition extractActorBlock ::
  "string \<Rightarrow> extraction_context \<Rightarrow> expression \<Rightarrow> block option \<times> extraction_context" where
  "extractActorBlock nodeId ctx element =
     (if isUndefined element then (None, ctx)
      else (case element of
              ObjectLiteralExpression props \<Rightarrow>
                (case findProperty props ''src'' of (srcProperty, es) \<Rightarrow>
                   (let ctx1 = push_errors es ctx in
                    case srcProperty of
                      None \<Rightarrow> (None, ctx1)
                    | Some (sn, srcInit) \<Rightarrow>
                        (case findProperty props ''id'' of (idProperty, es1) \<Rightarrow>
                           (let ctx2 = push_errors es1 ctx1 in
                            case (if isStringLiteralLike srcInit then (literal_text srcInit, ctx2)
                                  else (case uniqueId ctx2 of (t, c) \<Rightarrow> (inline_id t, c))) of
                              (sourceI, ctx3) \<Rightarrow>
                            (case (case idProperty of
                                     Some (n, idInit) \<Rightarrow>
                                       if isStringLiteralLike idInit then (literal_text idInit, ctx3)
                                       else (case uniqueId ctx3 of (t, c) \<Rightarrow> (inline_id t, c))
                                   | None \<Rightarrow> (case uniqueId ctx3 of (t, c) \<Rightarrow> (inline_id t, c))) of
                               (actorId, ctx4) \<Rightarrow>
                                 (case createActorBlock sourceI nodeId actorId ctx4 of
                                    (b, ctx5) \<Rightarrow> (Some b, ctx5)))))))
            | _ \<Rightarrow>
                (case uniqueId ctx of (t, ctx1) \<Rightarrow>
                   (case uniqueId ctx1 of (t1, ctx2) \<Rightarrow>
                      (case createActorBlock (inline_id t) nodeId (inline_id t1 @ ''}'') ctx2 of
                         (b, ctx3) \<Rightarrow> (Some b, ctx3))))))"

text \<open>
  What one property assignment with a key not met before does to the state, for every
  key but \<open>states\<close>: one definition per \<open>case\<close> of the source's \<open>switch\<close>. Only the
  \<open>on\<close> case can leave \<open>extractState\<close>; every other case goes on with the next
  property, whether it ends in \<open>continue\<close> or in \<open>break\<close>.
\<close>

definition state_id :: "string \<Rightarrow> expression \<Rightarrow> extraction_context \<Rightarrow> extraction_context" where
  "state_id nodeId initializer ctx =
     (if isStringLiteralLike initializer \<and> literal_text initializer \<noteq> ''__proto__''
      then ctx\<lparr>ctx_idToNodeIdMap :=
                 AList.update (literal_text initializer) nodeId (ctx_idToNodeIdMap ctx)\<rparr>
      else ctx)"

definition state_context ::
  "string option \<Rightarrow> expression \<Rightarrow> extraction_context \<Rightarrow> extraction_context" where
  "state_context parentI initializer ctx =
     (if parentI \<noteq> None then push_errors [state_property_invalid] ctx
      else (case initializer of
              ObjectLiteralExpression props \<Rightarrow>
                (case getJsonObject props [] of (obj, es) \<Rightarrow>
                   (let ctx1 = push_errors es ctx in
                    case obj of
                      None \<Rightarrow> ctx1
                    | Some v \<Rightarrow> ctx1\<lparr>ctx_digraph := (ctx_digraph ctx1)\<lparr>data_context := v\<rparr>\<rparr>))
            | FunctionExpression t \<Rightarrow>
                ctx\<lparr>ctx_digraph := (ctx_digraph ctx)\<lparr>data_context := JString (''{{'' @ t @ ''}}'')\<rparr>\<rparr>
            | ArrowFunction t \<Rightarrow>
                ctx\<lparr>ctx_digraph := (ctx_digraph ctx)\<lparr>data_context := JString (''{{'' @ t @ ''}}'')\<rparr>\<rparr>
            | _ \<Rightarrow> push_errors [state_property_unhandled] ctx))"

definition state_on ::
  "string \<Rightarrow> expression \<Rightarrow> extraction_context \<Rightarrow> extraction_context flow" where
  "state_on nodeId initializer ctx =
     (case initializer of
        ObjectLiteralExpression ts \<Rightarrow> on_transitions ts nodeId ctx
      | _ \<Rightarrow> Next (push_errors [state_property_unhandled] ctx))"

definition state_initial :: "string \<Rightarrow> expression \<Rightarrow> extraction_context \<Rightarrow> extraction_context" where
  "state_initial nodeId initializer ctx =
     (if isStringLiteralLike initializer
      then set_node_data nodeId (\<lambda>d. d\<lparr>ninitial := Some (literal_text initializer)\<rparr>) ctx
      else if isUndefined initializer then ctx
      else push_errors [state_property_unhandled] ctx)"

definition state_type :: "string \<Rightarrow> expression \<Rightarrow> extraction_context \<Rightarrow> extraction_context" where
  "state_type nodeId initializer ctx =
     (if isStringLiteralLike initializer then
        (let t = literal_text initializer in
         if t = ''history'' \<or> t = ''parallel'' \<or> t = ''final''
         then set_node_data nodeId (\<lambda>d. d\<lparr>ntype := t\<rparr>) ctx
         else if t = ''atomic'' \<or> t = ''compound'' then ctx
         else push_errors [state_type_invalid] ctx)
      else if isUndefined initializer then ctx
      else push_errors [state_property_unhandled] ctx)"

text \<open>
  In the \<open>history\<close> case a string that is neither \<open>shallow\<close> nor \<open>deep\<close> pushes
  \<open>state_history_invalid\<close> and falls on to the tests that follow.
\<close>

definition state_history :: "string \<Rightarrow> expression \<Rightarrow> extraction_context \<Rightarrow> extraction_context" where
  "state_history nodeId initializer ctx =
     (if isStringLiteralLike initializer \<and>
         (literal_text initializer = ''shallow'' \<or> literal_text initializer = ''deep'')
      then set_node_data nodeId (\<lambda>d. d\<lparr>nhistory := Some (literal_text initializer)\<rparr>) ctx
      else
        (let ctx1 = (if isStringLiteralLike initializer
                     then push_errors [state_history_invalid] ctx else ctx)
         in if initializer = TrueKeyword
            then set_node_data nodeId (\<lambda>d. d\<lparr>nhistory := Some ''deep''\<rparr>) ctx1
            else if initializer = FalseKeyword
            then set_node_data nodeId (\<lambda>d. d\<lparr>nhistory := Some ''shallow''\<rparr>) ctx1
            else if isUndefined initializer then ctx1
            else push_errors [state_property_unhandled] ctx1))"

definition state_description ::
  "string \<Rightarrow> expression \<Rightarrow> extraction_context \<Rightarrow> extraction_context" where
  "state_description nodeId initializer ctx =
     (if isStringLiteralLike initializer
      then set_node_data nodeId (\<lambda>d. d\<lparr>ndescription := Some (literal_text initializer)\<rparr>) ctx
      else if isUndefined initializer then ctx
      else push_errors [state_property_unhandled] ctx)"

definition state_meta :: "string \<Rightarrow> expression \<Rightarrow> extraction_context \<Rightarrow> extraction_context" where
  "state_meta nodeId initializer ctx =
     (case initializer of
        ObjectLiteralExpression ms \<Rightarrow>
          (case meta_entries ms of (entries, es) \<Rightarrow>
             set_node_data nodeId (\<lambda>d. d\<lparr>nmetaEntries := nmetaEntries d @ entries\<rparr>)
               (push_errors es ctx))
      | _ \<Rightarrow>
          if isUndefined initializer then ctx
          else push_errors [state_property_unhandled] ctx)"

definition state_entry_exit ::
  "string \<Rightarrow> string \<Rightarrow> expression \<Rightarrow> extraction_context \<Rightarrow> extraction_context" where
  "state_entry_exit nodeId k initializer ctx =
     (case extractActionBlocks initializer nodeId ctx of (bs, ctx1) \<Rightarrow>
        if \<not> everyDefined bs then push_errors [state_property_unhandled] ctx1
        else if k = ''entry'' then
          (case registerActionBlocks (map the bs) (get_node_data nodeId nentry ctx1) ctx1 of
             (container, ctx2) \<Rightarrow> set_node_data nodeId (\<lambda>d. d\<lparr>nentry := container\<rparr>) ctx2)
        else
          (case registerActionBlocks (map the bs) (get_node_data nodeId nexit ctx1) ctx1 of
             (container, ctx2) \<Rightarrow> set_node_data nodeId (\<lambda>d. d\<lparr>nexit := container\<rparr>) ctx2))"

definition state_invoke :: "string \<Rightarrow> expression \<Rightarrow> extraction_context \<Rightarrow> extraction_context" where
  "state_invoke nodeId initializer ctx =
     (case mapMaybeArrayElements initializer (extractActorBlock nodeId) ctx of (bs, ctx1) \<Rightarrow>
        if \<not> everyDefined bs then push_errors [state_property_unhandled] ctx1
        else
          (case registerActorBlocks (map the bs) (get_node_data nodeId ninvoke ctx1) ctx1 of
             (container, ctx2) \<Rightarrow> set_node_data nodeId (\<lambda>d. d\<lparr>ninvoke := container\<rparr>) ctx2))"

definition state_property ::
  "string \<Rightarrow> string option \<Rightarrow> string \<Rightarrow> expression \<Rightarrow> extraction_context \<Rightarrow>
     extraction_context flow" where
  "state_property nodeId parentI k initializer ctx =
     (if k = ''id'' then Next (state_id nodeId initializer ctx)
      else if k = ''context'' then Next (state_context parentI initializer ctx)
      else if k = ''always'' then Next (extractEdgeGroup initializer nodeId ETalways ctx)
      else if k = ''on'' then state_on nodeId initializer ctx
      else if k = ''initial'' then Next (state_initial nodeId initializer ctx)
      else if k = ''type'' then Next (state_type nodeId initializer ctx)
      else if k = ''history'' then Next (state_history nodeId initializer ctx)
      else if k = ''description'' then Next (state_description nodeId initializer ctx)
      else if k = ''meta'' then Next (state_meta nodeId initializer ctx)
      else if k = ''entry'' \<or> k = ''exit'' then Next (state_entry_exit nodeId k initializer ctx)
      else if k = ''invoke'' then Next (state_invoke nodeId initializer ctx)
      else Next ctx)"

text \<open>
  \<open>extractState\<close>. The call in \<open>extractMachineConfig\<close> passes the parent id together
  with the node's key; \<open>state.ts\<close> as given takes the parent id, and the key a child is
  stored under is its property name. The model passes both and stores the key in the
  node's data.

  \<open>extractState_properties\<close> is the loop over the properties from the last to the first:
  the equation for \<open>p # ps\<close> first runs the loop on the later properties \<open>ps\<close>, then
  visits \<open>p\<close>. \<open>extractState_children\<close> is the loop over the properties of \<open>states\<close>,
  from the first to the last.
\<close>

fun extractState ::
  "extraction_context \<Rightarrow> expression option \<Rightarrow> string option \<Rightarrow> string \<Rightarrow>
     tree_node option \<times> extraction_context"
and extractState_properties ::
  "object_literal_element list \<Rightarrow> string \<Rightarrow> string option \<Rightarrow> extraction_context \<Rightarrow>
     (extraction_context \<times> string set) flow"
and extractState_children ::
  "object_literal_element list \<Rightarrow> string \<Rightarrow> extraction_context \<Rightarrow> extraction_context"
where
  "extractState ctx state parentI k =
     (case uniqueId ctx of (nodeId, ctx0) \<Rightarrow>
        (let nd = \<lparr>nuniqueId = nodeId, nparentId = parentI,
                   ndata = \<lparr>nkey = k, ninitial = None, ntype = ''normal'', nhistory = None,
                             nmetaEntries = [], nentry = [], nexit = [], ninvoke = [],
                             ntags = [], ndescription = None\<rparr>\<rparr>;
             treeNode = \<lparr>tn_uniqueId = nodeId, tn_parentId = parentI, tn_children = Map.empty\<rparr>;
             ctx1 = ctx0\<lparr>ctx_digraph :=
                          (ctx_digraph ctx0)\<lparr>nodes := (nodes (ctx_digraph ctx0))(nodeId \<mapsto> nd)\<rparr>,
                        ctx_treeNodes := (ctx_treeNodes ctx0)(nodeId \<mapsto> treeNode)\<rparr>
         in case state of
              None \<Rightarrow> (ctx_treeNodes ctx1 nodeId, ctx1)
            | Some (ObjectLiteralExpression props) \<Rightarrow>
                (case extractState_properties props nodeId parentI ctx1 of
                   ReturnUndefined ctx2 \<Rightarrow> (None, ctx2)
                 | Next (ctx2, seen) \<Rightarrow> (ctx_treeNodes ctx2 nodeId, ctx2))
            | Some other \<Rightarrow>
                (let ctx2 = push_errors [state_unhandled] ctx1
                 in (ctx_treeNodes ctx2 nodeId, ctx2))))"
| "extractState_properties [] nodeId parentI ctx = Next (ctx, {})"
| "extractState_properties (p # ps) nodeId parentI ctx =
     (case extractState_properties ps nodeId parentI ctx of
        ReturnUndefined ctx1 \<Rightarrow> ReturnUndefined ctx1
      | Next (ctx1, seen) \<Rightarrow>
          (case p of
             PropertyAssignment n initializer \<Rightarrow>
               (case getPropertyKey n of (k, es) \<Rightarrow>
                  (let ctx2 = push_errors es ctx1 in
                   if \<not> truthy k then Next (push_errors [state_property_unhandled] ctx2, seen)
                   else if the k \<in> seen then Next (ctx2, seen)
                   else if the k = ''states'' then
                     (case initializer of
                        ObjectLiteralExpression cs \<Rightarrow>
                          Next (extractState_children cs nodeId ctx2, insert (the k) seen)
                      | _ \<Rightarrow> Next (push_errors [state_unhandled] ctx2, insert (the k) seen))
                   else (case state_property nodeId parentI (the k) initializer ctx2 of
                           ReturnUndefined ctx3 \<Rightarrow> ReturnUndefined ctx3
                         | Next ctx3 \<Rightarrow> Next (ctx3, insert (the k) seen))))
           | _ \<Rightarrow> Next (push_errors [state_property_unhandled] ctx1, seen)))"
| "extractState_children [] nodeId ctx = ctx"
| "extractState_children (c # cs) nodeId ctx =
     extractState_children cs nodeId
       (case c of
          PropertyAssignment n initializer \<Rightarrow>
            (case getPropertyKey n of (childKey, es) \<Rightarrow>
               (let ctx1 = push_errors es ctx in
                if truthy childKey then
                  (case extractState ctx1 (Some initializer) (Some nodeId) (the childKey) of
                     (None, ctx2) \<Rightarrow> ctx2
                   | (Some childTreeNode, ctx2) \<Rightarrow>
                       (case ctx_treeNodes ctx2 nodeId of
                          None \<Rightarrow> ctx2
                        | Some t \<Rightarrow>
                            ctx2\<lparr>ctx_treeNodes := (ctx_treeNodes ctx2)
                                   (nodeId \<mapsto> t\<lparr>tn_children := (tn_children t)
                                       (the childKey \<mapsto> tn_uniqueId childTreeNode)\<rparr>)\<rparr>))
                else ctx1))
        | _ \<Rightarrow> push_errors [state_property_unhandled] ctx)"

section \<open>The reference resolver\<close>

text \<open>\<open>target.split('.')\<close>: never empty; the empty string gives one empty segment.\<close>

fun split_dot :: "string \<Rightarrow> string list" where
  "split_dot [] = [[]]"
| "split_dot (c # cs) =
     (if c = CHR ''.'' then [] # split_dot cs
      else (case split_dot cs of w # ws \<Rightarrow> (c # w) # ws | [] \<Rightarrow> [[c]]))"

text \<open>
  What a lookup among the children of a tree node, or the walk that follows, can hold: a
  tree node, or a value found under an inherited name. Such a value is truthy and has
  neither \<open>children\<close> nor \<open>uniqueId\<close>.

  The children of a tree node are kept by the id of the child; the source keeps the
  child's tree node itself. A state keyed \<open>__proto__\<close> is kept like any other: the
  source's assignment makes it the prototype of \<open>children\<close>, where the same key reads it
  back.
\<close>

datatype marker = TreeNode tree_node | Inherited

definition children_at :: "extraction_context \<Rightarrow> tree_node \<Rightarrow> string \<Rightarrow> marker option" where
  "children_at ctx parent k =
     (case tn_children parent k of
        Some child \<Rightarrow> map_option TreeNode (ctx_treeNodes ctx child)
      | None \<Rightarrow> if inherited k then Some Inherited else None)"

text \<open>
  \<open>resolvePathOrigin\<close>. The declared id of an origin \<open>#name\<close> is read from a plain object
  too, but what an inherited name gives there is no key of \<open>treeNodes\<close>, so the origin is
  \<open>undefined\<close> as for a name that is not declared.
\<close>

definition resolvePathOrigin ::
  "extraction_context \<Rightarrow> string \<Rightarrow> string \<Rightarrow> hard_error + marker option" where
  "resolvePathOrigin ctx sourceI origin =
     (if origin = [] then Inr (map_option TreeNode (ctx_treeNodes ctx sourceI))
      else if hd origin = CHR ''#'' then
        (case map_of (ctx_idToNodeIdMap ctx) (tl origin) of
           None \<Rightarrow> Inr None
         | Some originId \<Rightarrow> Inr (map_option TreeNode (ctx_treeNodes ctx originId)))
      else
        (case ctx_treeNodes ctx sourceI of
           None \<Rightarrow> Inl TypeError
         | Some source \<Rightarrow>
             if \<not> truthy (tn_parentId source) then Inr None
             else (case ctx_treeNodes ctx (the (tn_parentId source)) of
                     None \<Rightarrow> Inl TypeError
                   | Some parent \<Rightarrow> Inr (children_at ctx parent origin))))"

text \<open>
  The walk along the remaining segments: \<open>while ((segment = path.shift()))\<close> stops at
  the end of the path and at an empty segment. \<open>marker.children[segment]\<close> throws when
  the marker has no \<open>children\<close>.
\<close>

fun walk_path ::
  "extraction_context \<Rightarrow> marker \<Rightarrow> string list \<Rightarrow> hard_error + marker option" where
  "walk_path ctx marker [] = Inr (Some marker)"
| "walk_path ctx marker (segment # path) =
     (if segment = [] then Inr (Some marker)
      else (case marker of
              Inherited \<Rightarrow> Inl TypeError
            | TreeNode t \<Rightarrow>
                (case children_at ctx t segment of
                   None \<Rightarrow> Inr None
                 | Some next \<Rightarrow> walk_path ctx next path)))"

text \<open>\<open>marker.uniqueId\<close>\<close>

fun marker_uniqueId :: "marker \<Rightarrow> string option" where
  "marker_uniqueId (TreeNode t) = Some (tn_uniqueId t)"
| "marker_uniqueId Inherited = None"

definition resolveTargetId ::
  "extraction_context \<Rightarrow> string \<Rightarrow> string \<Rightarrow>
     hard_error + string option \<times> extraction_context" where
  "resolveTargetId ctx sourceI target =
     (case resolvePathOrigin ctx sourceI (hd (split_dot target)) of
        Inl e \<Rightarrow> Inl e
      | Inr None \<Rightarrow> Inr (None, push_errors [transition_target_unresolved] ctx)
      | Inr (Some resolvedOrigin) \<Rightarrow>
          (case walk_path ctx resolvedOrigin (tl (split_dot target)) of
             Inl e \<Rightarrow> Inl e
           | Inr None \<Rightarrow> Inr (None, push_errors [transition_target_unresolved] ctx)
           | Inr (Some marker) \<Rightarrow> Inr (marker_uniqueId marker, ctx)))"

text \<open>The targets of one edge, then the edges in the order of their first registration.\<close>

fun resolveEdgeTargets ::
  "string \<Rightarrow> string list \<Rightarrow> extraction_context \<Rightarrow> hard_error + extraction_context" where
  "resolveEdgeTargets edgeId [] ctx = Inr ctx"
| "resolveEdgeTargets edgeId (edgeTarget # edgeTargets) ctx =
     (case edges (ctx_digraph ctx) edgeId of
        None \<Rightarrow> Inl TypeError
      | Some e \<Rightarrow>
          (case resolveTargetId ctx (esource e) edgeTarget of
             Inl err \<Rightarrow> Inl err
           | Inr (resolvedTargetId, ctx1) \<Rightarrow>
               if \<not> truthy resolvedTargetId
               then resolveEdgeTargets edgeId edgeTargets
                      (push_errors [transition_property_unhandled] ctx1)
               else resolveEdgeTargets edgeId edgeTargets
                      (ctx1\<lparr>ctx_digraph := (ctx_digraph ctx1)
                         \<lparr>edges := (edges (ctx_digraph ctx1))
                            (edgeId \<mapsto> e\<lparr>etargets := etargets e @ [the resolvedTargetId]\<rparr>)\<rparr>\<rparr>)))"

fun resolveTargets_entries ::
  "(string \<times> string list) list \<Rightarrow> extraction_context \<Rightarrow> hard_error + extraction_context" where
  "resolveTargets_entries [] ctx = Inr ctx"
| "resolveTargets_entries ((edgeId, edgeTargets) # rest) ctx =
     (case resolveEdgeTargets edgeId edgeTargets ctx of
        Inl err \<Rightarrow> Inl err
      | Inr ctx1 \<Rightarrow> resolveTargets_entries rest ctx1)"

definition resolveTargets :: "extraction_context \<Rightarrow> hard_error + extraction_context" where
  "resolveTargets ctx = resolveTargets_entries (ctx_originalTargets ctx) ctx"

section \<open>Extracting a machine\<close>

definition extractMachineConfig ::
  "extraction_context \<Rightarrow> call_expression \<Rightarrow>
     hard_error + (digraph_def option \<times> extraction_error list) \<times> extraction_context" where
  "extractMachineConfig ctx createMachineCall =
     (case extractState ctx (nth_opt (arguments createMachineCall) 0) None ''(machine)'' of
        (None, ctx1) \<Rightarrow> Inr ((None, ctx_errors ctx1), ctx1)
      | (Some rootNode, ctx1) \<Rightarrow>
          (case resolveTargets ctx1 of
             Inl e \<Rightarrow> Inl e
           | Inr ctx2 \<Rightarrow>
               Inr ((Some (digraph.extend (ctx_digraph ctx2)
                             (digraph_def.fields (tn_uniqueId rootNode))),
                     ctx_errors ctx2), ctx2)))"

text \<open>
  Modelled from the spec: \<open>invert\<close> is not among the sources. The machine state keeps
  "the inverse id-map (node id \<rightarrow> declared id string)": every entry is turned around, a
  later entry replacing an earlier one with the same node id.
\<close>

definition invert :: "(string \<times> string) list \<Rightarrow> (string \<times> string) list" where
  "invert m = fold (\<lambda>(k, v) acc. AList.update v k acc) m []"

definition initial_context :: "nat \<Rightarrow> extraction_context" where
  "initial_context n =
     \<lparr>ctx_errors = [],
      ctx_digraph = \<lparr>nodes = Map.empty, edges = Map.empty, edgeRefs = [], blocks = Map.empty,
                      implementations = \<lparr>impl_actions = Map.empty, impl_actors = Map.empty,
                                          impl_guards = Map.empty\<rparr>,
                      data_context = JObject []\<rparr>,
      ctx_treeNodes = Map.empty,
      ctx_idToNodeIdMap = [],
      ctx_originalTargets = [],
      ctx_astPaths = \<lparr>ap_nodes = Map.empty, ap_edges = Map.empty\<rparr>,
      ctx_drawn = n\<rparr>"

text \<open>
  \<open>extractProjectMachine\<close>, with the context it ends with (the source drops it), and the
  machine state it returns.
\<close>

definition extractProjectMachine_context ::
  "nat \<Rightarrow> call_expression \<Rightarrow>
     hard_error + (digraph_def option \<times> extraction_error list) \<times> extraction_context" where
  "extractProjectMachine_context n call = extractMachineConfig (initial_context n) call"

definition extractProjectMachine ::
  "nat \<Rightarrow> call_expression \<Rightarrow> hard_error + project_machine_state \<times> nat" where
  "extractProjectMachine n call =
     (case extractProjectMachine_context n call of
        Inl e \<Rightarrow> Inl e
      | Inr ((d, errs), ctx) \<Rightarrow>
          Inr (\<lparr>pms_digraph = d, pms_errors = errs, pms_astPaths = ctx_astPaths ctx,
                pms_idMap = invert (ctx_idToNodeIdMap ctx)\<rparr>, ctx_drawn ctx))"

section \<open>The project\<close>

type_synonym program = "string \<rightharpoonup> source_file"

record project_machine =
  pm_fileName :: string
  pm_machineIndex :: nat
  pm_state :: "project_machine_state option"

text \<open>
  The project: the current program, the machines created per file, and the number of
  tokens drawn so far. The patch library's \<open>applyPatches\<close> is a parameter of the patch
  operations: given the digraph and the patches it returns the new digraph or throws
  (\<open>None\<close>).
\<close>

record project =
  currentProgram :: program
  projectMachines :: "string \<rightharpoonup> project_machine list"
  tokens_drawn :: nat

type_synonym patch_library = "digraph_def option \<Rightarrow> json_patch list \<Rightarrow> digraph_def option option"

definition createProject :: "program \<Rightarrow> project" where
  "createProject tsProgram =
     \<lparr>currentProgram = tsProgram, projectMachines = Map.empty, tokens_drawn = 0\<rparr>"

definition updateTsProgram :: "project \<Rightarrow> program \<Rightarrow> project" where
  "updateTsProgram proj tsProgram = proj\<lparr>currentProgram := tsProgram\<rparr>"

definition findOwnCreateMachineCall ::
  "program \<Rightarrow> project_machine \<Rightarrow> hard_error + source_file \<times> call_expression" where
  "findOwnCreateMachineCall prog m =
     (case prog (pm_fileName m) of
        None \<Rightarrow> Inl FileNotFound
      | Some sourceFile \<Rightarrow>
          (case nth_opt (findCreateMachineCalls sourceFile) (pm_machineIndex m) of
             None \<Rightarrow> Inl MachineNotFound
           | Some createMachineCall \<Rightarrow> Inr (sourceFile, createMachineCall)))"

definition machine_getDigraph ::
  "program \<Rightarrow> nat \<Rightarrow> project_machine \<Rightarrow>
     hard_error + (digraph_def option \<times> extraction_error list) \<times> project_machine \<times> nat" where
  "machine_getDigraph prog n m =
     (case findOwnCreateMachineCall prog m of
        Inl e \<Rightarrow> Inl e
      | Inr (sourceFile, createMachineCall) \<Rightarrow>
          (case extractProjectMachine n createMachineCall of
             Inl e \<Rightarrow> Inl e
           | Inr (st, n1) \<Rightarrow>
               Inr ((pms_digraph st, pms_errors st), m\<lparr>pm_state := Some st\<rparr>, n1)))"

text \<open>
  \<open>machines.map((machine) => machine.getDigraph())\<close>: a machine that throws ends the
  map; the machines before it keep their new state.
\<close>

fun getDigraphs ::
  "program \<Rightarrow> nat \<Rightarrow> project_machine list \<Rightarrow>
     project_machine list \<times> nat \<times> (hard_error + (digraph_def option \<times> extraction_error list) list)" where
  "getDigraphs prog n [] = ([], n, Inr [])"
| "getDigraphs prog n (m # ms) =
     (case machine_getDigraph prog n m of
        Inl e \<Rightarrow> (m # ms, n, Inl e)
      | Inr (r, m1, n1) \<Rightarrow>
          (case getDigraphs prog n1 ms of
             (ms1, n2, Inl e) \<Rightarrow> (m1 # ms1, n2, Inl e)
           | (ms1, n2, Inr rs) \<Rightarrow> (m1 # ms1, n2, Inr (r # rs))))"

definition getMachinesInFile ::
  "project \<Rightarrow> string \<Rightarrow>
     project \<times> (hard_error + (digraph_def option \<times> extraction_error list) list)" where
  "getMachinesInFile proj fileName =
     (let run = (\<lambda>machines.
            case getDigraphs (currentProgram proj) (tokens_drawn proj) machines of
              (ms1, n1, r) \<Rightarrow>
                (proj\<lparr>projectMachines := (projectMachines proj)(fileName \<mapsto> ms1),
                      tokens_drawn := n1\<rparr>, r))
      in case projectMachines proj fileName of
           Some existing \<Rightarrow> run existing
         | None \<Rightarrow>
             (case currentProgram proj fileName of
                None \<Rightarrow> (proj, Inr [])
              | Some sourceFile \<Rightarrow>
                  run (map (\<lambda>machineIndex.
                              \<lparr>pm_fileName = fileName, pm_machineIndex = machineIndex,
                               pm_state = None\<rparr>)
                         [0 ..< length (findCreateMachineCalls sourceFile)])))"

text \<open>
  The machine's \<open>applyPatches\<close>: the patched digraph replaces the state's digraph before
  the loop over the patches runs, and stays when the loop throws.
\<close>

definition machine_applyPatches ::
  "patch_library \<Rightarrow> program \<Rightarrow> project_machine \<Rightarrow> json_patch list \<Rightarrow>
     (project_machine \<times> (hard_error + code_change list)) option" where
  "machine_applyPatches lib prog m patches =
     (case findOwnCreateMachineCall prog m of
        Inl e \<Rightarrow> Some (m, Inl e)
      | Inr (sourceFile, createMachineCall) \<Rightarrow>
          (case pm_state m of
             None \<Rightarrow> Some (m, Inl TypeError)
           | Some currentState \<Rightarrow>
               (case lib (pms_digraph currentState) patches of
                  None \<Rightarrow> Some (m, Inl PatchError)
                | Some d \<Rightarrow>
                    (let st = currentState\<lparr>pms_digraph := d\<rparr> in
                     case patches_changes createMachineCall st patches of
                       None \<Rightarrow> None
                     | Some r \<Rightarrow> Some (m\<lparr>pm_state := Some st\<rparr>, r)))))"

definition project_applyPatches ::
  "patch_library \<Rightarrow> project \<Rightarrow> string \<Rightarrow> nat \<Rightarrow> json_patch list \<Rightarrow>
     (project \<times> (hard_error + code_change list)) option" where
  "project_applyPatches lib proj fileName machineIndex patches =
     (case (case projectMachines proj fileName of
              None \<Rightarrow> None
            | Some machines \<Rightarrow> nth_opt machines machineIndex) of
        None \<Rightarrow> Some (proj, Inl MachineNotFound)
      | Some machine \<Rightarrow>
          (case machine_applyPatches lib (currentProgram proj) machine patches of
             None \<Rightarrow> None
           | Some (m1, r) \<Rightarrow>
               Some (proj\<lparr>projectMachines := (projectMachines proj)
                       (fileName \<mapsto> (the (projectMachines proj fileName))[machineIndex := m1])\<rparr>, r)))"

section \<open>Reference notions and example inputs\<close>

text \<open>
  The quote character of a statement's module specifier: defined for an import or export
  declaration whose module specifier is a string literal.
\<close>

fun specifier_quote :: "statement \<Rightarrow> quote_char option" where
  "specifier_quote (ImportDeclaration (StringLiteral q t)) = Some q"
| "specifier_quote (ExportDeclaration (Some (StringLiteral q t))) = Some q"
| "specifier_quote s = None"

text \<open>
  The specification's wording, "the file's dominant quote character (scanned from its
  import/export module specifiers, defaulting to double-quote)", read as the quote
  character that most of those specifiers use: the single quote when it opens more
  specifiers than the double quote does, the double quote otherwise.
\<close>

definition spec_dominant_quote :: "source_file \<Rightarrow> quote_char" where
  "spec_dominant_quote sourceFile =
     (let qs = List.map_filter specifier_quote (statements sourceFile)
      in if length (filter (\<lambda>q. q = singleQuote) qs) > length (filter (\<lambda>q. q = doubleQuote) qs)
         then singleQuote else doubleQuote)"

text \<open>
  A file that imports \<open>'a'\<close>, then \<open>"b"\<close> and \<open>"c"\<close>.
\<close>

definition mixed_quotes_file :: source_file where
  "mixed_quotes_file =
     \<lparr>statements = [ImportDeclaration (StringLiteral singleQuote ''a''),
                     ImportDeclaration (StringLiteral doubleQuote ''b''),
                     ExportDeclaration (Some (StringLiteral doubleQuote ''c''))],
      createMachineCalls = []\<rparr>"

text \<open>
  A machine state whose digraph holds the root and one child \<open>a\<close> that invokes the actor
  block \<open>b1\<close>, and edges out of \<open>a\<close> of several kinds.
\<close>

definition plain_data :: "string \<Rightarrow> node_data" where
  "plain_data k =
     \<lparr>nkey = k, ninitial = None, ntype = ''normal'', nhistory = None, nmetaEntries = [],
      nentry = [], nexit = [], ninvoke = [], ntags = [], ndescription = None\<rparr>"

definition invoking_state :: project_machine_state where
  "invoking_state =
     \<lparr>pms_digraph = Some
        \<lparr>nodes = [''r'' \<mapsto> \<lparr>nuniqueId = ''r'', nparentId = None, ndata = plain_data ''(machine)''\<rparr>,
                  ''a'' \<mapsto> \<lparr>nuniqueId = ''a'', nparentId = Some ''r'',
                            ndata = (plain_data ''a'')\<lparr>ninvoke := [''b0'', ''b1'']\<rparr>\<rparr>],
         edges = Map.empty, edgeRefs = [], blocks = Map.empty,
         implementations = \<lparr>impl_actions = Map.empty, impl_actors = Map.empty,
                            impl_guards = Map.empty\<rparr>,
         data_context = JObject [], root = ''r''\<rparr>,
      pms_errors = [],
      pms_astPaths = \<lparr>ap_nodes = [''r'' \<mapsto> [], ''a'' \<mapsto> [0, 0]], ap_edges = Map.empty\<rparr>,
      pms_idMap = []\<rparr>"

definition edge_of_kind :: "event_type_data \<Rightarrow> edge" where
  "edge_of_kind t =
     \<lparr>euniqueId = ''e'', esource = ''a'', etargets = [],
      edata = \<lparr>eeventTypeData = t, eactions = [], eguard = None, edescription = None,
                einternal = True\<rparr>\<rparr>"

text \<open>A property assignment whose key reads as \<open>key\<close>.\<close>

definition has_key :: "string \<Rightarrow> object_literal_element \<Rightarrow> bool" where
  "has_key key p =
     (case p of PropertyAssignment n e \<Rightarrow> fst (getPropertyKey n) = Some key | _ \<Rightarrow> False)"



text \<open>
  A machine state with the root and two children \<open>a\<close> and \<open>b\<close>, a guard block \<open>g1\<close>
  whose implementation is named \<open>isReady\<close>, and two edges out of \<open>a\<close>: one with the
  targets \<open>b\<close> and \<open>a\<close> and no other field set, one to \<open>b\<close> with a guard, a description
  and \<open>internal = false\<close>.
\<close>

definition siblings_state :: project_machine_state where
  "siblings_state =
     \<lparr>pms_digraph = Some
        \<lparr>nodes = [''r'' \<mapsto> \<lparr>nuniqueId = ''r'', nparentId = None, ndata = plain_data ''(machine)''\<rparr>,
                  ''a'' \<mapsto> \<lparr>nuniqueId = ''a'', nparentId = Some ''r'', ndata = plain_data ''a''\<rparr>,
                  ''b'' \<mapsto> \<lparr>nuniqueId = ''b'', nparentId = Some ''r'', ndata = plain_data ''b''\<rparr>],
         edges = Map.empty, edgeRefs = [],
         blocks = [''g1'' \<mapsto> \<lparr>blockType = action, buniqueId = ''g1'', bparentId = ''e'',
                               sourceId = ''isReady'', properties = ActionProperties ''isReady''\<rparr>],
         implementations = \<lparr>impl_actions = Map.empty, impl_actors = Map.empty,
                            impl_guards = Map.empty\<rparr>,
         data_context = JObject [], root = ''r''\<rparr>,
      pms_errors = [],
      pms_astPaths = \<lparr>ap_nodes = Map.empty, ap_edges = Map.empty\<rparr>,
      pms_idMap = []\<rparr>"

definition two_target_edge :: edge where
  "two_target_edge =
     \<lparr>euniqueId = ''e'', esource = ''a'', etargets = [''b'', ''a''],
      edata = \<lparr>eeventTypeData = ETnamed ''NEXT'', eactions = [], eguard = None,
                edescription = None, einternal = True\<rparr>\<rparr>"

definition guarded_edge :: edge where
  "guarded_edge =
     \<lparr>euniqueId = ''e'', esource = ''a'', etargets = [''b''],
      edata = \<lparr>eeventTypeData = ETnamed ''NEXT'', eactions = [], eguard = Some ''g1'',
                edescription = Some ''go'', einternal = False\<rparr>\<rparr>"

text \<open>
  The part of a context that extracting blocks and single edges leaves alone: the nodes,
  the registered edges, the pending targets, the tree nodes and the declared ids.
\<close>

definition structure_of ::
  "extraction_context \<Rightarrow>
     (string \<rightharpoonup> node) \<times> (string \<rightharpoonup> edge) \<times> (string \<times> string list) list \<times>
     (string \<rightharpoonup> tree_node) \<times> (string \<times> string) list" where
  "structure_of ctx =
     (nodes (ctx_digraph ctx), edges (ctx_digraph ctx), ctx_originalTargets ctx,
      ctx_treeNodes ctx, ctx_idToNodeIdMap ctx)"

text \<open>
  The elements of a transitions value, and the elements that yield no edge: one that is
  neither \<open>undefined\<close>, \<open>null\<close>, a string literal nor an object literal, and an object
  literal whose \<open>target\<close> in force is neither \<open>undefined\<close> nor \<open>null\<close> and holds an
  element that is not a string literal.
\<close>

definition elements_of :: "expression \<Rightarrow> expression list" where
  "elements_of e = (case e of ArrayLiteralExpression es \<Rightarrow> es | _ \<Rightarrow> [e])"

definition yields_no_edge :: "expression \<Rightarrow> bool" where
  "yields_no_edge element =
     (\<not> isForbiddenTarget element \<and> \<not> isStringLiteralLike element \<and>
      (case element of
         ObjectLiteralExpression props \<Rightarrow>
           (case fst (findProperty props ''target'') of
              None \<Rightarrow> False
            | Some (n, initializer) \<Rightarrow>
                \<not> isForbiddenTarget initializer \<and>
                list_ex (\<lambda>x. \<not> isStringLiteralLike x) (elements_of initializer))
       | _ \<Rightarrow> True))"

text \<open>
  The transitions value \<open>["b", 1, { target: "c" }]\<close>: its second element yields no edge.
\<close>

definition spoiled_group :: expression where
  "spoiled_group =
     ArrayLiteralExpression
       [StringLiteral doubleQuote ''b'',
        NumericLiteral ''1'' ''1'',
        ObjectLiteralExpression
          [PropertyAssignment (IdentifierName ''target'') (StringLiteral doubleQuote ''c'')]]"

text \<open>
  Whether a loop over a state's properties left \<open>extractState\<close>, and the context it
  ended with.
\<close>

definition left_undefined :: "'a flow \<Rightarrow> bool" where
  "left_undefined r = (case r of Next x \<Rightarrow> False | ReturnUndefined c \<Rightarrow> True)"

definition flow_context :: "('a \<Rightarrow> extraction_context) \<Rightarrow> 'a flow \<Rightarrow> extraction_context" where
  "flow_context f r = (case r of Next x \<Rightarrow> f x | ReturnUndefined c \<Rightarrow> c)"

text \<open>
  The machine \<open>createMachine({ initial: "a", initial: "b" })\<close>, and the same with the
  first \<open>initial\<close> left out.
\<close>

definition two_initials :: expression where
  "two_initials =
     ObjectLiteralExpression
       [PropertyAssignment (IdentifierName ''initial'') (StringLiteral doubleQuote ''a''),
        PropertyAssignment (IdentifierName ''initial'') (StringLiteral doubleQuote ''b'')]"

definition last_initial_only :: expression where
  "last_initial_only =
     ObjectLiteralExpression
       [PropertyAssignment (IdentifierName ''initial'') (StringLiteral doubleQuote ''b'')]"




text \<open>
  The call \<open>createMachine({ states: { a: { on: { GO: { target: [...] } } }, b: {} } })\<close>
  with the given target strings; the errors an extraction recorded, and the targets it
  gave an edge.
\<close>

definition targets_call :: "string list \<Rightarrow> call_expression" where
  "targets_call ts =
     \<lparr>arguments = [ObjectLiteralExpression
        [PropertyAssignment (IdentifierName ''states'') (ObjectLiteralExpression
          [PropertyAssignment (IdentifierName ''a'') (ObjectLiteralExpression
             [PropertyAssignment (IdentifierName ''on'') (ObjectLiteralExpression
                [PropertyAssignment (IdentifierName ''GO'') (ObjectLiteralExpression
                   [PropertyAssignment (IdentifierName ''target'')
                      (ArrayLiteralExpression (map (StringLiteral doubleQuote) ts))])])]),
           PropertyAssignment (IdentifierName ''b'') (ObjectLiteralExpression [])])]]\<rparr>"

definition errors_recorded ::
  "hard_error + (digraph_def option \<times> extraction_error list) \<times> extraction_context \<Rightarrow>
     hard_error + extraction_error list" where
  "errors_recorded r = (case r of Inl e \<Rightarrow> Inl e | Inr ((d, errs), ctx) \<Rightarrow> Inr errs)"

definition targets_recorded ::
  "hard_error + (digraph_def option \<times> extraction_error list) \<times> extraction_context \<Rightarrow>
     string \<Rightarrow> string list option" where
  "targets_recorded r edgeId =
     (case r of
        Inr ((Some d, errs), ctx) \<Rightarrow> map_option etargets (edges d edgeId)
      | _ \<Rightarrow> None)"

text \<open>
  The machine a project keeps for a file and an index, if it keeps one.
\<close>

definition machine_at :: "project \<Rightarrow> string \<Rightarrow> nat \<Rightarrow> project_machine option" where
  "machine_at proj fileName machineIndex =
     (case projectMachines proj fileName of
        None \<Rightarrow> None
      | Some machines \<Rightarrow> nth_opt machines machineIndex)"

text \<open>
  A patch library that leaves the digraph as it is. A program whose file \<open>m.ts\<close> holds
  one call \<open>createMachine()\<close>, and a later program in which the file holds none. The
  project is created on the first program, its machines are extracted, and the program
  is then updated to the second.
\<close>

definition keep_digraph :: patch_library where
  "keep_digraph d patches = Some d"

definition one_machine_program :: program where
  "one_machine_program =
     [''m.ts'' \<mapsto> \<lparr>statements = [], createMachineCalls = [\<lparr>arguments = []\<rparr>]\<rparr>]"

definition no_machine_program :: program where
  "no_machine_program = [''m.ts'' \<mapsto> \<lparr>statements = [], createMachineCalls = []\<rparr>]"

definition stale_project :: project where
  "stale_project =
     updateTsProgram (fst (getMachinesInFile (createProject one_machine_program) ''m.ts''))
       no_machine_program"

text \<open>Whether a prior extraction left per-machine state for a file and an index.\<close>

definition has_state :: "project \<Rightarrow> string \<Rightarrow> nat \<Rightarrow> bool" where
  "has_state proj fileName machineIndex =
     (case machine_at proj fileName machineIndex of
        None \<Rightarrow> False
      | Some m \<Rightarrow> pm_state m \<noteq> None)"

definition fresh_project :: project where
  "fresh_project = createProject one_machine_program"

definition extracted_project :: project where
  "extracted_project = fst (getMachinesInFile fresh_project ''m.ts'')"

text \<open>
  The tree an extraction builds. A node's skeleton is what no property of a state but
  \<open>states\<close> touches: its id, its parent's id and its key. The invariant says that every
  id in use is a token drawn earlier; that a tree node is stored under its own id beside
  a node with the same parent; that a child registered under a key is a tree node whose
  node carries that key and this parent, the key is not empty and the child was drawn
  after the parent; and that no declared id is listed twice.
\<close>

definition node_skeleton :: "node \<Rightarrow> string \<times> string option \<times> string" where
  "node_skeleton nd = (nuniqueId nd, nparentId nd, nkey (ndata nd))"

definition skeleton_of ::
  "extraction_context \<Rightarrow> string \<Rightarrow> (string \<times> string option \<times> string) option" where
  "skeleton_of ctx = (\<lambda>i. map_option node_skeleton (nodes (ctx_digraph ctx) i))"

definition tree_invariant :: "extraction_context \<Rightarrow> bool" where
  "tree_invariant ctx \<longleftrightarrow>
     (\<forall>i. ctx_treeNodes ctx i \<noteq> None \<or> skeleton_of ctx i \<noteq> None \<longrightarrow>
          (\<exists>j<ctx_drawn ctx. i = token j)) \<and>
     (\<forall>i t. ctx_treeNodes ctx i = Some t \<longrightarrow>
          tn_uniqueId t = i \<and> (\<exists>k. skeleton_of ctx i = Some (i, tn_parentId t, k))) \<and>
     (\<forall>p tp k c. ctx_treeNodes ctx p = Some tp \<longrightarrow> tn_children tp k = Some c \<longrightarrow>
          k \<noteq> [] \<and> length p < length c \<and>
          (\<exists>tc. ctx_treeNodes ctx c = Some tc \<and> tn_parentId tc = Some p \<and>
                skeleton_of ctx c = Some (c, Some p, k))) \<and>
     distinct (map fst (ctx_idToNodeIdMap ctx))"

text \<open>
  The context an extraction ended with, the machine state it returned, and the root:
  the root is a tree node without a parent, the state's digraph has the context's nodes,
  and the state's id map is the inverse of the context's.
\<close>

definition extracted_tree ::
  "extraction_context \<Rightarrow> project_machine_state \<Rightarrow> string \<Rightarrow> bool" where
  "extracted_tree ctx st r \<longleftrightarrow>
     tree_invariant ctx \<and>
     (\<exists>tr. ctx_treeNodes ctx r = Some tr \<and> tn_parentId tr = None) \<and>
     (\<exists>d. pms_digraph st = Some d \<and> nodes d = nodes (ctx_digraph ctx) \<and> root d = r) \<and>
     pms_idMap st = invert (ctx_idToNodeIdMap ctx)"

text \<open>
  The node reached from a node by a path of keys, through the children of the tree
  nodes. A node is reachable in the tree when some path leads to it from the root.
\<close>

fun descend :: "extraction_context \<Rightarrow> string \<Rightarrow> string list \<Rightarrow> string option" where
  "descend ctx i [] = (case ctx_treeNodes ctx i of None \<Rightarrow> None | Some t \<Rightarrow> Some i)"
| "descend ctx i (k # ks) =
     (case ctx_treeNodes ctx i of
        None \<Rightarrow> None
      | Some t \<Rightarrow> (case tn_children t k of None \<Rightarrow> None | Some c \<Rightarrow> descend ctx c ks))"

text \<open>
  The node at the end of a path from the root, the nodes met from the end of a path up
  to the root, and the length of the longest common prefix of two paths.
\<close>

definition node_at :: "extraction_context \<Rightarrow> string \<Rightarrow> string list \<Rightarrow> node" where
  "node_at ctx r q = the (nodes (ctx_digraph ctx) (the (descend ctx r q)))"

definition nodes_up :: "extraction_context \<Rightarrow> string \<Rightarrow> string list \<Rightarrow> node list" where
  "nodes_up ctx r ks = map (\<lambda>m. node_at ctx r (take m ks)) (rev [0 ..< Suc (length ks)])"

fun common_length :: "'a list \<Rightarrow> 'a list \<Rightarrow> nat" where
  "common_length (x # xs) (y # ys) = (if x = y then Suc (common_length xs ys) else 0)"
| "common_length xs ys = 0"






text \<open>
  What the properties of a state other than \<open>states\<close> leave alone: tokens are only
  drawn, the skeletons of the nodes and the tree nodes stay, and no declared id comes
  to be listed twice.
\<close>

definition kept ::
  "nat \<Rightarrow> (string \<Rightarrow> (string \<times> string option \<times> string) option) \<Rightarrow> (string \<rightharpoonup> tree_node) \<Rightarrow>
     extraction_context \<Rightarrow> bool" where
  "kept n S T ctx \<longleftrightarrow>
     n \<le> ctx_drawn ctx \<and> skeleton_of ctx = S \<and> ctx_treeNodes ctx = T \<and>
     distinct (map fst (ctx_idToNodeIdMap ctx))"

text \<open>
  How a context grows while states are extracted: tokens are only drawn, the skeleton
  of a node stays once the node is stored, and a tree node stays as it is unless it is
  one of those whose states are being extracted, which stay tree nodes.
\<close>

definition tree_grows :: "string set \<Rightarrow> extraction_context \<Rightarrow> extraction_context \<Rightarrow> bool" where
  "tree_grows opened ctx ctx' \<longleftrightarrow>
     ctx_drawn ctx \<le> ctx_drawn ctx' \<and>
     (\<forall>i. skeleton_of ctx i \<noteq> None \<longrightarrow> skeleton_of ctx' i = skeleton_of ctx i) \<and>
     (\<forall>i. ctx_treeNodes ctx i \<noteq> None \<longrightarrow> ctx_treeNodes ctx' i \<noteq> None) \<and>
     (\<forall>i. i \<notin> opened \<longrightarrow> ctx_treeNodes ctx i \<noteq> None \<longrightarrow>
          ctx_treeNodes ctx' i = ctx_treeNodes ctx i)"

text \<open>
  The context an extraction of a machine ended with and the machine state it returned
  (the initial context and a state without a digraph when it threw). The calls
  \<open>createMachine({ states: { "a.b": {}, c: {} } })\<close> and
  \<open>createMachine({ id: "top", states: { a: { states: { c: {} } }, b: {} } })\<close>.
\<close>

definition final_context :: "nat \<Rightarrow> call_expression \<Rightarrow> extraction_context" where
  "final_context n call =
     (case extractProjectMachine_context n call of
        Inr (r, ctx) \<Rightarrow> ctx
      | Inl e \<Rightarrow> initial_context n)"

definition final_state :: "nat \<Rightarrow> call_expression \<Rightarrow> project_machine_state" where
  "final_state n call =
     (case extractProjectMachine n call of
        Inr (st, n') \<Rightarrow> st
      | Inl e \<Rightarrow>
          \<lparr>pms_digraph = None, pms_errors = [],
           pms_astPaths = \<lparr>ap_nodes = Map.empty, ap_edges = Map.empty\<rparr>, pms_idMap = []\<rparr>)"



text \<open>The call \<open>createMachine({ states: { a: { states: { c: {} } }, b: {} } })\<close>.\<close>

definition unnamed_states_call :: call_expression where
  "unnamed_states_call =
     \<lparr>arguments = [ObjectLiteralExpression
        [PropertyAssignment (IdentifierName ''states'') (ObjectLiteralExpression
          [PropertyAssignment (IdentifierName ''a'') (ObjectLiteralExpression
             [PropertyAssignment (IdentifierName ''states'') (ObjectLiteralExpression
                [PropertyAssignment (IdentifierName ''c'') (ObjectLiteralExpression [])])]),
           PropertyAssignment (IdentifierName ''b'') (ObjectLiteralExpression [])])]]\<rparr>"

section \<open>Sequencing\<close>

lemma and_then_returns [simp]: "and_then (returns x) f = f x"
  by (simp add: and_then_def returns_def)

lemma and_then_throws [simp]: "and_then (throws e) f = throws e"
  by (simp add: and_then_def throws_def)

lemma and_then_lift_Inl [simp]: "and_then (lift (Inl e)) f = throws e"
  by (simp add: and_then_def lift_def throws_def)

lemma and_then_lift_Inr [simp]: "and_then (lift (Inr x)) f = f x"
  by (simp add: and_then_def lift_def)

lemma and_then_None [simp]: "and_then None f = None"
  by (simp add: and_then_def)

lemma returns_neq [simp]:
  "returns x \<noteq> throws e" "throws e \<noteq> returns x" "returns x \<noteq> None" "throws e \<noteq> None"
  "(returns x = returns y) = (x = y)" "(throws e = throws e') = (e = e')"
  "(returns x = Some (Inr y)) = (x = y)" "returns x \<noteq> Some (Inl e)"
  "(throws e = Some (Inl e')) = (e = e')" "throws e \<noteq> Some (Inr x)"
  by (simp_all add: returns_def throws_def)

lemma and_then_eq_returns:
  "and_then m f = Some (Inr y) \<longleftrightarrow> (\<exists>x. m = Some (Inr x) \<and> f x = Some (Inr y))"
  by (auto simp: and_then_def split: option.splits sum.splits)

lemma lift_eq [simp]:
  "(lift r = Some (Inr x)) = (r = Inr x)" "(lift r = Some (Inl e)) = (r = Inl e)" "lift r \<noteq> None"
  by (simp_all add: lift_def)

lemma patches_changes_each:
  "patches_changes call st patches = Some (Inr r) \<Longrightarrow> p \<in> set patches \<Longrightarrow>
     \<exists>cs. patch_changes call st p = Some (Inr cs)"
proof (induction patches arbitrary: r)
  case Nil
  then show ?case by simp
next
  case (Cons q qs)
  from Cons.prems(1) obtain cs rest where
    q: "patch_changes call st q = Some (Inr cs)" and
    qs: "patches_changes call st qs = Some (Inr rest)"
    by (auto simp: and_then_eq_returns)
  show ?case
  proof (cases "p = q")
    case True
    with q show ?thesis by blast
  next
    case False
    with Cons.prems(2) have "p \<in> set qs" by simp
    with Cons.IH qs show ?thesis by blast
  qed
qed

section \<open>The preferred quote character\<close>

lemma getPreferredQuoteCharCode_scan_first:
  "getPreferredQuoteCharCode_scan ss =
     (case List.map_filter specifier_quote ss of [] \<Rightarrow> doubleQuote | q # qs \<Rightarrow> q)"
proof (induction ss rule: getPreferredQuoteCharCode_scan.induct)
  case 1
  show ?case by simp
next
  case (2 q t ss)
  show ?case by simp
next
  case (3 q t ss)
  show ?case by simp
qed simp_all

text \<open>
  C8, counterexample. In a file whose first import uses single quotes and whose two
  later module specifiers use double quotes, the double quote is the dominant quote
  character of the specifiers, and \<open>getPreferredQuoteCharCode\<close> answers the single quote.
\<close>

theorem C8_dominant_quote_counterexample:
  "getPreferredQuoteCharCode mixed_quotes_file = singleQuote \<and>
   spec_dominant_quote mixed_quotes_file = doubleQuote"
  by (simp add: getPreferredQuoteCharCode_def spec_dominant_quote_def mixed_quotes_file_def)

text \<open>
  C8, as amended. The quote character handed to literal synthesis is the one that opens
  the first import or export declaration's module specifier among those that are string
  literals, whatever the later specifiers use; it is the double quote when the file has
  no such specifier.
\<close>

theorem C8_first_specifier_quote:
  "getPreferredQuoteCharCode sourceFile =
     (case List.map_filter specifier_quote (statements sourceFile) of
        [] \<Rightarrow> doubleQuote
      | q # qs \<Rightarrow> q)"
  by (simp add: getPreferredQuoteCharCode_def getPreferredQuoteCharCode_scan_first)

section \<open>Where a new transition is written\<close>

lemma unsupported_kind_throws:
  assumes "eeventTypeData (edata e) \<in> {ETafter, ETwildcard, ETinit}"
  shows "\<exists>err. getTransitionInsertionPath e st = Inl err"
  using assms by (auto simp: getTransitionInsertionPath_def split: option.splits)

lemma unsupported_kind_patch_throws:
  assumes "eeventTypeData (edata e) \<in> {ETafter, ETwildcard, ETinit}"
    and "patch_op p = op_add" and "nth_opt (patch_path p) 0 = Some ''edges''"
    and "patch_val p = EdgeValue e"
  shows "\<exists>err. patch_changes call st p = Some (Inl err)"
proof -
  obtain err where err: "getTransitionInsertionPath e st = Inl err"
    using unsupported_kind_throws [OF assms(1)] by blast
  show ?thesis
  proof (cases "object_literal_at call st (Some (esource e))")
    case (Inl e1)
    with assms(2-4) show ?thesis
      by (simp add: patch_changes_def add_edge_def)
  next
    case (Inr props)
    with assms(2-4) err show ?thesis
      by (simp add: patch_changes_def add_edge_def)
  qed
qed

text \<open>
  C6. An edge of kind \<open>after\<close>, \<open>wildcard\<close> or \<open>init\<close> has no insertion path: asking for
  it throws, the add-edge patch that carries the edge throws, and a patch list that holds
  such a patch never yields edits. For the kinds \<open>named\<close>, \<open>always\<close> and \<open>state.done\<close>
  the path is returned whenever the machine state has a digraph, and for
  \<open>invocation.done\<close> and \<open>invocation.error\<close> whenever the edge's source is a node of it.
\<close>

theorem C6_insertion_path_kinds:
  "(eeventTypeData (edata e) \<in> {ETafter, ETwildcard, ETinit} \<longrightarrow>
      (\<exists>err. getTransitionInsertionPath e st = Inl err) \<and>
      (\<forall>p. patch_op p = op_add \<and> nth_opt (patch_path p) 0 = Some ''edges'' \<and>
            patch_val p = EdgeValue e \<longrightarrow>
         (\<exists>err. patch_changes call st p = Some (Inl err)) \<and>
         (\<forall>patches m m1 cs. p \<in> set patches \<longrightarrow>
            machine_applyPatches lib prog m patches \<noteq> Some (m1, Inr cs)))) \<and>
   (pms_digraph st = Some d \<longrightarrow>
      (\<forall>eventType. eeventTypeData (edata e) = ETnamed eventType \<longrightarrow>
         getTransitionInsertionPath e st = Inr [PropertyKey ''on'', PropertyKey eventType]) \<and>
      (eeventTypeData (edata e) = ETalways \<longrightarrow>
         getTransitionInsertionPath e st = Inr [PropertyKey ''always'']) \<and>
      (eeventTypeData (edata e) = ETstate_done \<longrightarrow>
         getTransitionInsertionPath e st = Inr [PropertyKey ''onDone'']) \<and>
      (\<forall>s invocationId. nodes d (esource e) = Some s \<longrightarrow>
         (eeventTypeData (edata e) = ETinvocation_done invocationId \<longrightarrow>
            getTransitionInsertionPath e st =
              Inr [PropertyKey ''invoke'', ArrayIndex (indexOf (ninvoke (ndata s)) invocationId),
                   PropertyKey ''onDone'']) \<and>
         (eeventTypeData (edata e) = ETinvocation_error invocationId \<longrightarrow>
            getTransitionInsertionPath e st =
              Inr [PropertyKey ''invoke'', ArrayIndex (indexOf (ninvoke (ndata s)) invocationId),
                   PropertyKey ''onError''])))"
proof (intro conjI impI allI)
  assume k: "eeventTypeData (edata e) \<in> {ETafter, ETwildcard, ETinit}"
  show "\<exists>err. getTransitionInsertionPath e st = Inl err"
    by (rule unsupported_kind_throws [OF k])
next
  fix p :: json_patch
  assume k: "eeventTypeData (edata e) \<in> {ETafter, ETwildcard, ETinit}"
    and p: "patch_op p = op_add \<and> nth_opt (patch_path p) 0 = Some ''edges'' \<and>
            patch_val p = EdgeValue e"
  show "\<exists>err. patch_changes call st p = Some (Inl err)"
    using unsupported_kind_patch_throws [OF k] p by blast
next
  fix p :: json_patch and patches m m1 cs
  assume k: "eeventTypeData (edata e) \<in> {ETafter, ETwildcard, ETinit}"
    and p: "patch_op p = op_add \<and> nth_opt (patch_path p) 0 = Some ''edges'' \<and>
            patch_val p = EdgeValue e"
    and mem: "p \<in> set patches"
  show "machine_applyPatches lib prog m patches \<noteq> Some (m1, Inr cs)"
  proof
    assume ok: "machine_applyPatches lib prog m patches = Some (m1, Inr cs)"
    then obtain c st1 where "patches_changes c st1 patches = Some (Inr cs)"
      by (auto simp: machine_applyPatches_def Let_def split: sum.splits option.splits prod.splits)
    from patches_changes_each [OF this mem]
    obtain cs1 where "patch_changes c st1 p = Some (Inr cs1)" by blast
    moreover obtain err where "patch_changes c st1 p = Some (Inl err)"
      using unsupported_kind_patch_throws [OF k, of p c st1] p by blast
    ultimately show False by simp
  qed
qed (simp_all add: getTransitionInsertionPath_def)

theorem C6_insertion_path_kinds_witness:
  "(\<exists>err. getTransitionInsertionPath (edge_of_kind ETwildcard) invoking_state = Inl err) \<and>
   (\<exists>err. patch_changes \<lparr>arguments = []\<rparr> invoking_state
            \<lparr>patch_op = op_add, patch_path = [''edges'', ''e''],
             patch_val = EdgeValue (edge_of_kind ETwildcard)\<rparr> = Some (Inl err)) \<and>
   getTransitionInsertionPath (edge_of_kind (ETnamed ''NEXT'')) invoking_state =
     Inr [PropertyKey ''on'', PropertyKey ''NEXT''] \<and>
   getTransitionInsertionPath (edge_of_kind ETalways) invoking_state = Inr [PropertyKey ''always''] \<and>
   getTransitionInsertionPath (edge_of_kind (ETinvocation_error ''b1'')) invoking_state =
     Inr [PropertyKey ''invoke'', ArrayIndex 1, PropertyKey ''onError'']"
proof -
  have d: "pms_digraph invoking_state = Some (the (pms_digraph invoking_state))"
    by (simp add: invoking_state_def)
  have s: "nodes (the (pms_digraph invoking_state)) (esource (edge_of_kind t)) =
           Some \<lparr>nuniqueId = ''a'', nparentId = Some ''r'',
                 ndata = (plain_data ''a'')\<lparr>ninvoke := [''b0'', ''b1'']\<rparr>\<rparr>" for t
    by (simp add: invoking_state_def edge_of_kind_def)
  have p: "patch_op \<lparr>patch_op = op_add, patch_path = [''edges'', ''e''],
             patch_val = EdgeValue (edge_of_kind ETwildcard)\<rparr> = op_add \<and>
           nth_opt (patch_path \<lparr>patch_op = op_add, patch_path = [''edges'', ''e''],
             patch_val = EdgeValue (edge_of_kind ETwildcard)\<rparr>) 0 = Some ''edges'' \<and>
           patch_val \<lparr>patch_op = op_add, patch_path = [''edges'', ''e''],
             patch_val = EdgeValue (edge_of_kind ETwildcard)\<rparr> = EdgeValue (edge_of_kind ETwildcard)"
    by (simp add: nth_opt_def)
  have k: "eeventTypeData (edata (edge_of_kind ETwildcard)) \<in> {ETafter, ETwildcard, ETinit}"
    by (simp add: edge_of_kind_def)
  have i: "indexOf [''b0'', ''b1''] ''b1'' = 1" by simp
  note w = C6_insertion_path_kinds [of "edge_of_kind ETwildcard" invoking_state
      "\<lparr>arguments = []\<rparr>" "\<lambda>d ps. None" Map.empty "the (pms_digraph invoking_state)"]
  note n = C6_insertion_path_kinds [of "edge_of_kind (ETnamed ''NEXT'')" invoking_state
      "\<lparr>arguments = []\<rparr>" "\<lambda>d ps. None" Map.empty "the (pms_digraph invoking_state)"]
  note a = C6_insertion_path_kinds [of "edge_of_kind ETalways" invoking_state
      "\<lparr>arguments = []\<rparr>" "\<lambda>d ps. None" Map.empty "the (pms_digraph invoking_state)"]
  note v = C6_insertion_path_kinds [of "edge_of_kind (ETinvocation_error ''b1'')" invoking_state
      "\<lparr>arguments = []\<rparr>" "\<lambda>d ps. None" Map.empty "the (pms_digraph invoking_state)"]
  have 1: "\<exists>err. getTransitionInsertionPath (edge_of_kind ETwildcard) invoking_state = Inl err"
    using w k by blast
  have 2: "\<exists>err. patch_changes \<lparr>arguments = []\<rparr> invoking_state
            \<lparr>patch_op = op_add, patch_path = [''edges'', ''e''],
             patch_val = EdgeValue (edge_of_kind ETwildcard)\<rparr> = Some (Inl err)"
    using w k p by blast
  have 3: "getTransitionInsertionPath (edge_of_kind (ETnamed ''NEXT'')) invoking_state =
     Inr [PropertyKey ''on'', PropertyKey ''NEXT'']"
    using n d by (simp add: edge_of_kind_def)
  have 4: "getTransitionInsertionPath (edge_of_kind ETalways) invoking_state = Inr [PropertyKey ''always'']"
    using a d by (simp add: edge_of_kind_def)
  have 5: "getTransitionInsertionPath (edge_of_kind (ETinvocation_error ''b1'')) invoking_state =
     Inr [PropertyKey ''invoke'', ArrayIndex 1, PropertyKey ''onError'']"
  proof -
    have "eeventTypeData (edata (edge_of_kind (ETinvocation_error ''b1''))) = ETinvocation_error ''b1''"
      by (simp add: edge_of_kind_def)
    with v d s [of "ETinvocation_error ''b1''"]
    have "getTransitionInsertionPath (edge_of_kind (ETinvocation_error ''b1'')) invoking_state =
      Inr [PropertyKey ''invoke'',
           ArrayIndex (indexOf (ninvoke (ndata \<lparr>nuniqueId = ''a'', nparentId = Some ''r'',
                 ndata = (plain_data ''a'')\<lparr>ninvoke := [''b0'', ''b1'']\<rparr>\<rparr>)) ''b1''),
           PropertyKey ''onError'']"
      by blast
    then show ?thesis by simp
  qed
  from 1 2 3 4 5 show ?thesis by blast
qed

section \<open>Looking a property up\<close>






lemma findProperty_scan_None:
  "fst (findProperty_scan xs key) = None \<Longrightarrow> \<not> list_ex (has_key key) xs"
proof (induction xs key rule: findProperty_scan.induct)
  case (1 key)
  then show ?case by simp
next
  case (2 m d ps key)
  then show ?case by (auto simp: has_key_def split: prod.splits if_splits)
qed (auto simp: has_key_def)

lemma findProperty_None:
  "fst (findProperty props key) = None \<Longrightarrow> \<not> list_ex (has_key key) props"
  using findProperty_scan_None [of "rev props" key] by (simp add: findProperty_def list_ex_iff)

section \<open>Writing a default back\<close>










section \<open>The transition value\<close>

lemma descriptors_returns:
  "descriptors src ts st = Some (Inr ds) \<longleftrightarrow>
     list_all2 (\<lambda>t d. getBestTargetDescriptor src t st = Some (Inr d)) ts ds"
proof (induction ts arbitrary: ds)
  case Nil
  show ?case by auto
next
  case (Cons t ts)
  show ?case
    by (auto simp: and_then_eq_returns Cons.IH list_all2_Cons1)
qed

lemma target_element_returns:
  "(case ts of
      [] \<Rightarrow> returns c_undefined
    | [t] \<Rightarrow> and_then (getBestTargetDescriptor src t st) (\<lambda>d. returns (c_string d False))
    | t # u # us \<Rightarrow> and_then (descriptors src ts st)
                     (\<lambda>ds. returns (c_array (map (\<lambda>d. c_string d False) ds)))) = Some (Inr target)
   \<longleftrightarrow>
   (\<exists>ds. list_all2 (\<lambda>t d. getBestTargetDescriptor src t st = Some (Inr d)) ts ds \<and>
      target = (case ds of
                  [] \<Rightarrow> c_undefined
                | [d] \<Rightarrow> c_string d False
                | d # d' # ds' \<Rightarrow> c_array (map (\<lambda>d. c_string d False) ds)))"
proof (cases ts)
  case Nil
  then show ?thesis by auto
next
  case (Cons t ts1)
  show ?thesis
  proof (cases ts1)
    case Nil
    with Cons show ?thesis
      by (auto simp: and_then_eq_returns list_all2_Cons1)
  next
    case (Cons u us)
    have shape: "(case ds of
                  [] \<Rightarrow> c_undefined
                | [d] \<Rightarrow> c_string d False
                | d # d' # ds' \<Rightarrow> c_array (map (\<lambda>d. c_string d False) ds)) =
               c_array (map (\<lambda>d. c_string d False) ds)"
      if "list_all2 (\<lambda>t d. getBestTargetDescriptor src t st = Some (Inr d)) ts ds" for ds
    proof -
      from that \<open>ts = t # ts1\<close> Cons obtain z za zs where "ds = z # za # zs"
        by (auto simp: list_all2_Cons1)
      then show ?thesis by simp
    qed
    have "(\<exists>ds. descriptors src ts st = Some (Inr ds) \<and>
               c_array (map (\<lambda>d. c_string d False) ds) = target) \<longleftrightarrow>
          (\<exists>ds. list_all2 (\<lambda>t d. getBestTargetDescriptor src t st = Some (Inr d)) ts ds \<and>
             target = (case ds of
                  [] \<Rightarrow> c_undefined
                | [d] \<Rightarrow> c_string d False
                | d # d' # ds' \<Rightarrow> c_array (map (\<lambda>d. c_string d False) ds)))"
      (is "?L \<longleftrightarrow> ?R")
    proof
      assume ?L
      then obtain ds where
        a: "list_all2 (\<lambda>t d. getBestTargetDescriptor src t st = Some (Inr d)) ts ds" and
        b: "c_array (map (\<lambda>d. c_string d False) ds) = target"
        unfolding descriptors_returns by blast
      from b shape [OF a] have "target = (case ds of
                  [] \<Rightarrow> c_undefined
                | [d] \<Rightarrow> c_string d False
                | d # d' # ds' \<Rightarrow> c_array (map (\<lambda>d. c_string d False) ds))"
        by simp
      with a show ?R by blast
    next
      assume ?R
      then obtain ds where
        a: "list_all2 (\<lambda>t d. getBestTargetDescriptor src t st = Some (Inr d)) ts ds" and
        b: "target = (case ds of
                  [] \<Rightarrow> c_undefined
                | [d] \<Rightarrow> c_string d False
                | d # d' # ds' \<Rightarrow> c_array (map (\<lambda>d. c_string d False) ds))"
        by blast
      from b shape [OF a] have "c_array (map (\<lambda>d. c_string d False) ds) = target"
        by simp
      with a show ?L unfolding descriptors_returns by blast
    qed
    with \<open>ts = t # ts1\<close> Cons show ?thesis
      by (simp add: and_then_eq_returns del: descriptors.simps)
  qed
qed

lemma guard_part_returns:
  "(if truthy g
    then (case pms_digraph st of
            None \<Rightarrow> throws TypeError
          | Some d \<Rightarrow>
              (case blocks d (the g) of
                 None \<Rightarrow> throws TypeError
               | Some b \<Rightarrow> returns [(''guard'', c_string (sourceId b) False)]))
    else returns []) = Some (Inr gp)
   \<longleftrightarrow>
   (if truthy g
    then \<exists>d b. pms_digraph st = Some d \<and> blocks d (the g) = Some b \<and>
           gp = [(''guard'', c_string (sourceId b) False)]
    else gp = [])"
  by (auto split: option.splits)

text \<open>
  C5, as amended. \<open>toTransitionElement\<close> returns exactly when every target has a
  descriptor and the guard, if one is set, is a block of the digraph. The target element
  is \<open>undefined\<close> for no target, the descriptor string for one target, and the array of
  the descriptor strings for several. When no guard is set, \<open>internal\<close> is not
  \<open>false\<close> and no non-empty description is set, the value written is the target
  element itself; otherwise it is the object literal with \<open>target\<close>, then \<open>guard\<close> (the
  block's \<open>sourceId\<close>) if a guard is set, then \<open>reenter: true\<close> if \<open>internal\<close> is
  \<open>false\<close>, then \<open>description\<close> if one is set.
\<close>

theorem C5_transition_value:
  "toTransitionElement e st = Some (Inr el) \<longleftrightarrow>
     (\<exists>ds gp.
        list_all2 (\<lambda>t d. getBestTargetDescriptor (esource e) t st = Some (Inr d)) (etargets e) ds \<and>
        (if truthy (eguard (edata e))
         then \<exists>d b. pms_digraph st = Some d \<and> blocks d (the (eguard (edata e))) = Some b \<and>
                gp = [(''guard'', c_string (sourceId b) False)]
         else gp = []) \<and>
        el = (let target = (case ds of
                              [] \<Rightarrow> c_undefined
                            | [d] \<Rightarrow> c_string d False
                            | d # d' # ds' \<Rightarrow> c_array (map (\<lambda>d. c_string d False) ds));
                  others = gp
                    @ (if einternal (edata e) then [] else [(''reenter'', c_boolean True)])
                    @ (if truthy (edescription (edata e))
                       then [(''description'', c_string (the (edescription (edata e))) True)]
                       else [])
              in if others = [] then target else c_object ((''target'', target) # others)))"
proof -
  let ?T = "(case etargets e of
      [] \<Rightarrow> returns c_undefined
    | [t] \<Rightarrow> and_then (getBestTargetDescriptor (esource e) t st) (\<lambda>d. returns (c_string d False))
    | t # u # us \<Rightarrow> and_then (descriptors (esource e) (etargets e) st)
                     (\<lambda>ds. returns (c_array (map (\<lambda>d. c_string d False) ds))))"
  let ?G = "(if truthy (eguard (edata e))
    then (case pms_digraph st of
            None \<Rightarrow> throws TypeError
          | Some d \<Rightarrow>
              (case blocks d (the (eguard (edata e))) of
                 None \<Rightarrow> throws TypeError
               | Some b \<Rightarrow> returns [(''guard'', c_string (sourceId b) False)]))
    else returns [])"
  let ?R = "\<lambda>gp. gp
                    @ (if einternal (edata e) then [] else [(''reenter'', c_boolean True)])
                    @ (if truthy (edescription (edata e))
                       then [(''description'', c_string (the (edescription (edata e))) True)]
                       else [])"
  have T_eq: "(case etargets e of
          [] \<Rightarrow> returns c_undefined
        | [t] \<Rightarrow> and_then (getBestTargetDescriptor (esource e) t st) (\<lambda>d. returns (c_string d False))
        | ts \<Rightarrow> and_then (descriptors (esource e) ts st)
                 (\<lambda>ds. returns (c_array (map (\<lambda>d. c_string d False) ds)))) = ?T"
    by (simp split: list.splits)
  have unfold: "toTransitionElement e st =
      and_then ?T (\<lambda>target. and_then ?G (\<lambda>gp.
        returns (if ?R gp = [] then target else c_object ((''target'', target) # ?R gp))))"
    unfolding toTransitionElement_def T_eq
    by (rule arg_cong [where f = "and_then ?T"], rule ext, rule arg_cong [where f = "and_then ?G"],
        rule ext) (auto simp: Let_def)
  have "toTransitionElement e st = Some (Inr el) \<longleftrightarrow>
      (\<exists>target. ?T = Some (Inr target) \<and> (\<exists>gp. ?G = Some (Inr gp) \<and>
         el = (if ?R gp = [] then target else c_object ((''target'', target) # ?R gp))))"
    unfolding unfold and_then_eq_returns by auto
  also have "\<dots> \<longleftrightarrow>
     (\<exists>ds gp.
        list_all2 (\<lambda>t d. getBestTargetDescriptor (esource e) t st = Some (Inr d)) (etargets e) ds \<and>
        (if truthy (eguard (edata e))
         then \<exists>d b. pms_digraph st = Some d \<and> blocks d (the (eguard (edata e))) = Some b \<and>
                gp = [(''guard'', c_string (sourceId b) False)]
         else gp = []) \<and>
        el = (let target = (case ds of
                              [] \<Rightarrow> c_undefined
                            | [d] \<Rightarrow> c_string d False
                            | d # d' # ds' \<Rightarrow> c_array (map (\<lambda>d. c_string d False) ds));
                  others = ?R gp
              in if others = [] then target else c_object ((''target'', target) # others)))"
    unfolding target_element_returns guard_part_returns Let_def by blast
  finally show ?thesis .
qed

text \<open>
  C5, counterexample. An edge with the two targets \<open>b\<close> and \<open>a\<close> and no other field set
  is written as an array of two descriptors, not as a descriptor string.
\<close>

theorem C5_two_targets_counterexample:
  "eguard (edata two_target_edge) = None \<and> edescription (edata two_target_edge) = None \<and>
   einternal (edata two_target_edge) \<and>
   toTransitionElement two_target_edge siblings_state =
     Some (Inr (c_array [c_string ''b'' False, c_string ''a'' False]))"
  by (simp add: toTransitionElement_def two_target_edge_def siblings_state_def
      getBestTargetDescriptor_def getPathNodes_def getPathNodes_loop.simps truthy_def
      slice_to_minus_def plain_data_def returns_def and_then_def throws_def)

theorem C5_transition_value_witness:
  "toTransitionElement guarded_edge siblings_state =
     Some (Inr (c_object [(''target'', c_string ''b'' False),
                          (''guard'', c_string ''isReady'' False),
                          (''reenter'', c_boolean True),
                          (''description'', c_string ''go'' True)]))"
proof -
  have d: "getBestTargetDescriptor ''a'' ''b'' siblings_state = Some (Inr ''b'')"
    by (simp add: siblings_state_def getBestTargetDescriptor_def getPathNodes_def
        getPathNodes_loop.simps truthy_def slice_to_minus_def plain_data_def returns_def
        and_then_def throws_def)
  have ts: "list_all2 (\<lambda>t d. getBestTargetDescriptor (esource guarded_edge) t siblings_state
              = Some (Inr d)) (etargets guarded_edge) [''b'']"
    using d by (simp add: guarded_edge_def)
  have g: "if truthy (eguard (edata guarded_edge))
         then \<exists>d b. pms_digraph siblings_state = Some d \<and>
                blocks d (the (eguard (edata guarded_edge))) = Some b \<and>
                [(''guard'', c_string ''isReady'' False)] = [(''guard'', c_string (sourceId b) False)]
         else [(''guard'', c_string ''isReady'' False)] = []"
    by (simp add: guarded_edge_def siblings_state_def truthy_def)
  have el: "c_object [(''target'', c_string ''b'' False),
                          (''guard'', c_string ''isReady'' False),
                          (''reenter'', c_boolean True),
                          (''description'', c_string ''go'' True)] =
        (let target = (case [''b''] of
                              [] \<Rightarrow> c_undefined
                            | [d] \<Rightarrow> c_string d False
                            | d # d' # ds' \<Rightarrow> c_array (map (\<lambda>d. c_string d False) [''b'']));
                  others = [(''guard'', c_string ''isReady'' False)]
                    @ (if einternal (edata guarded_edge) then [] else [(''reenter'', c_boolean True)])
                    @ (if truthy (edescription (edata guarded_edge))
                       then [(''description'', c_string (the (edescription (edata guarded_edge))) True)]
                       else [])
              in if others = [] then target else c_object ((''target'', target) # others))"
    by (simp add: guarded_edge_def truthy_def)
  show ?thesis
    by (rule C5_transition_value [THEN iffD2], intro exI conjI, rule ts, rule g, rule el)
qed

section \<open>What block and edge extraction leave alone\<close>

lemma structure_of_push [simp]: "structure_of (push_errors es ctx) = structure_of ctx"
  by (simp add: structure_of_def push_errors_def)

lemma structure_of_uniqueId [simp]: "structure_of (snd (uniqueId ctx)) = structure_of ctx"
  by (simp add: structure_of_def uniqueId_def)

lemma structure_of_createActionBlock [simp]:
  "structure_of (snd (createActionBlock s p ctx)) = structure_of ctx"
  by (simp add: createActionBlock_def case_prod_beta)

lemma structure_of_createActorBlock [simp]:
  "structure_of (snd (createActorBlock s p a ctx)) = structure_of ctx"
  by (simp add: createActorBlock_def case_prod_beta)

lemma structure_of_createEdge [simp]:
  "structure_of (snd (createEdge s t ctx)) = structure_of ctx"
  by (simp add: createEdge_def case_prod_beta)

lemma structure_of_map_elements:
  assumes "\<And>c e. structure_of (snd (cb c e)) = structure_of c"
  shows "structure_of (snd (map_elements cb ctx es)) = structure_of ctx"
proof (induction es arbitrary: ctx)
  case Nil
  show ?case by simp
next
  case (Cons e es)
  show ?case
    using Cons.IH [of "snd (cb ctx e)"] assms [of ctx e]
    by (simp add: case_prod_beta)
qed

lemma structure_of_mapMaybe:
  assumes "\<And>c e. structure_of (snd (cb c e)) = structure_of c"
  shows "structure_of (snd (mapMaybeArrayElements x cb ctx)) = structure_of ctx"
  using assms structure_of_map_elements [of cb, OF assms]
  by (cases x) (simp_all add: mapMaybeArrayElements_def case_prod_beta)

lemma structure_of_extractActionBlock [simp]:
  "structure_of (snd (extractActionBlock p ctx e)) = structure_of ctx"
  by (simp add: extractActionBlock_def Let_def case_prod_beta
      split: expression.splits option.splits)

lemma structure_of_extractActionBlocks [simp]:
  "structure_of (snd (extractActionBlocks x p ctx)) = structure_of ctx"
  unfolding extractActionBlocks_def
  by (rule structure_of_mapMaybe) simp

lemma structure_of_registerActionBlocks [simp]:
  "structure_of (snd (registerActionBlocks bs container ctx)) = structure_of ctx"
proof (induction bs container ctx rule: registerActionBlocks.induct)
  case (1 parentContainer ctx)
  show ?case by simp
next
  case (2 b bs parentContainer ctx)
  have "structure_of (ctx\<lparr>ctx_digraph := register_action_implementation (sourceId b)
              ((ctx_digraph ctx)\<lparr>blocks := (blocks (ctx_digraph ctx))(buniqueId b \<mapsto> b)\<rparr>)\<rparr>) =
        structure_of ctx"
    by (simp add: structure_of_def register_action_implementation_def split: option.splits)
  with 2 show ?case by simp
qed

lemma structure_of_registerActorBlocks [simp]:
  "structure_of (snd (registerActorBlocks bs container ctx)) = structure_of ctx"
proof (induction bs container ctx rule: registerActorBlocks.induct)
  case (1 parentContainer ctx)
  show ?case by simp
next
  case (2 b bs parentContainer ctx)
  have "structure_of (ctx\<lparr>ctx_digraph := register_actor_implementation (sourceId b)
              ((ctx_digraph ctx)\<lparr>blocks := (blocks (ctx_digraph ctx))(buniqueId b \<mapsto> b)\<rparr>)\<rparr>) =
        structure_of ctx"
    by (simp add: structure_of_def register_actor_implementation_def split: option.splits)
  with 2 show ?case by simp
qed

lemma structure_of_getObjectTransitionTargets [simp]:
  "structure_of (snd (getObjectTransitionTargets props ctx)) = structure_of ctx"
proof -
  have cb: "structure_of (snd (mapMaybeArrayElements x
              (\<lambda>c expression.
                 (if isStringLiteralLike expression then Some (literal_text expression) else None, c))
              c0)) = structure_of c0" for x c0
    by (rule structure_of_mapMaybe) simp
  show ?thesis
    by (simp add: getObjectTransitionTargets_def Let_def case_prod_beta cb split: option.splits)
qed

lemma structure_of_transition_property [simp]:
  "structure_of (fst (transition_property p s)) = structure_of (fst s)"
  by (cases s)
    (simp add: transition_property_def Let_def case_prod_beta split: object_literal_element.splits)

lemma structure_of_transition_properties [simp]:
  "structure_of (fst (foldr transition_property props s)) = structure_of (fst s)"
  by (induction props) simp_all

lemma structure_of_extractEdge [simp]:
  "structure_of (snd (extractEdge s t ctx element)) = structure_of ctx"
  by (simp add: extractEdge_def Let_def case_prod_beta split: expression.splits)

lemma structure_of_edge_elements [simp]:
  "structure_of (snd (mapMaybeArrayElements x (extractEdge s t) ctx)) = structure_of ctx"
  by (rule structure_of_mapMaybe) simp

section \<open>An element that yields no edge spoils its group\<close>

lemma targets_everyDefined:
  "everyDefined (fst (map_elements
      (\<lambda>c expression.
         (if isStringLiteralLike expression then Some (literal_text expression) else None, c))
      ctx es)) \<longleftrightarrow> \<not> list_ex (\<lambda>x. \<not> isStringLiteralLike x) es"
  by (induction es arbitrary: ctx) (simp_all add: everyDefined_def case_prod_beta)

lemma object_targets_undefined:
  "(fst (getObjectTransitionTargets props ctx) \<noteq> None \<and>
    \<not> everyDefined (the (fst (getObjectTransitionTargets props ctx)))) \<longleftrightarrow>
   (case fst (findProperty props ''target'') of
      None \<Rightarrow> False
    | Some (n, initializer) \<Rightarrow>
        \<not> isForbiddenTarget initializer \<and>
        list_ex (\<lambda>x. \<not> isStringLiteralLike x) (elements_of initializer))"
proof (cases "fst (findProperty props ''target'')")
  case None
  then show ?thesis
    by (simp add: getObjectTransitionTargets_def case_prod_beta Let_def)
next
  case (Some a)
  obtain n initializer where a: "a = (n, initializer)" by (cases a)
  show ?thesis
  proof (cases "\<exists>es. initializer = ArrayLiteralExpression es")
    case True
    then obtain es where "initializer = ArrayLiteralExpression es" by blast
    with Some a show ?thesis
      by (simp add: getObjectTransitionTargets_def case_prod_beta Let_def
          mapMaybeArrayElements_def elements_of_def targets_everyDefined)
  next
    case False
    then have "elements_of initializer = [initializer]"
      by (cases initializer) (simp_all add: elements_of_def)
    moreover from False have "mapMaybeArrayElements initializer cb c =
        (case cb c initializer of (r, ctx1) \<Rightarrow> ([r], ctx1))" for cb :: "extraction_context \<Rightarrow> expression \<Rightarrow> string option \<times> extraction_context" and c
      by (cases initializer) (simp_all add: mapMaybeArrayElements_def)
    ultimately show ?thesis
      using Some a
      by (simp add: getObjectTransitionTargets_def case_prod_beta Let_def everyDefined_def)
  qed
qed

lemma extractEdge_None:
  "fst (extractEdge s t ctx element) = None \<longleftrightarrow> yields_no_edge element"
proof (cases "isForbiddenTarget element \<or> isStringLiteralLike element")
  case True
  then show ?thesis
    by (auto simp: extractEdge_def yields_no_edge_def case_prod_beta)
next
  case False
  show ?thesis
  proof (cases "\<exists>props. element = ObjectLiteralExpression props")
    case True
    then obtain props where "element = ObjectLiteralExpression props" by blast
    with False object_targets_undefined [of props ctx] show ?thesis
      by (simp add: extractEdge_def yields_no_edge_def case_prod_beta)
  next
    case nobj: False
    with False show ?thesis
      by (cases element) (simp_all add: extractEdge_def yields_no_edge_def)
  qed
qed

lemma extractEdge_Some:
  "(\<exists>a b. fst (extractEdge s t ctx element) = Some (a, b)) \<longleftrightarrow> \<not> yields_no_edge element"
  using extractEdge_None [of s t ctx element] by (cases "fst (extractEdge s t ctx element)") auto

lemma edge_elements_everyDefined:
  "everyDefined (fst (map_elements (extractEdge s t) ctx es)) \<longleftrightarrow> \<not> list_ex yields_no_edge es"
  by (induction es arbitrary: ctx) (simp_all add: everyDefined_def case_prod_beta extractEdge_Some)

lemma edge_group_everyDefined:
  "everyDefined (fst (mapMaybeArrayElements x (extractEdge s t) ctx)) \<longleftrightarrow>
     \<not> list_ex yields_no_edge (elements_of x)"
proof (cases "\<exists>es. x = ArrayLiteralExpression es")
  case True
  then show ?thesis
    by (auto simp: mapMaybeArrayElements_def elements_of_def edge_elements_everyDefined)
next
  case False
  then have "elements_of x = [x]" "mapMaybeArrayElements x (extractEdge s t) ctx =
        (case extractEdge s t ctx x of (r, ctx1) \<Rightarrow> ([r], ctx1))"
    by (cases x; simp add: mapMaybeArrayElements_def elements_of_def)+
  then show ?thesis
    by (simp add: case_prod_beta everyDefined_def extractEdge_Some)
qed

text \<open>
  C10. If one element of the transitions value of an \<open>on\<close> or \<open>always\<close> group yields no
  edge, extracting the group registers no edge and no pending target, for none of its
  elements, leaves the nodes alone, and the last error it records is
  \<open>transition_property_unhandled\<close>.
\<close>

theorem C10_spoiled_group_registers_nothing:
  assumes "list_ex yields_no_edge (elements_of initializer)"
  shows "edges (ctx_digraph (extractEdgeGroup initializer sourceI eventTypeData ctx)) =
           edges (ctx_digraph ctx) \<and>
         ctx_originalTargets (extractEdgeGroup initializer sourceI eventTypeData ctx) =
           ctx_originalTargets ctx \<and>
         nodes (ctx_digraph (extractEdgeGroup initializer sourceI eventTypeData ctx)) =
           nodes (ctx_digraph ctx) \<and>
         ctx_errors (extractEdgeGroup initializer sourceI eventTypeData ctx) \<noteq> [] \<and>
         last (ctx_errors (extractEdgeGroup initializer sourceI eventTypeData ctx)) =
           transition_property_unhandled"
proof -
  let ?m = "mapMaybeArrayElements initializer (extractEdge sourceI eventTypeData) ctx"
  from assms have "\<not> everyDefined (fst ?m)"
    by (simp add: edge_group_everyDefined)
  then have eq: "extractEdgeGroup initializer sourceI eventTypeData ctx =
      push_errors [transition_property_unhandled] (snd ?m)"
    by (simp add: extractEdgeGroup_def case_prod_beta)
  have "structure_of (extractEdgeGroup initializer sourceI eventTypeData ctx) = structure_of ctx"
    unfolding eq by simp
  then have
    "edges (ctx_digraph (extractEdgeGroup initializer sourceI eventTypeData ctx)) =
       edges (ctx_digraph ctx)"
    "ctx_originalTargets (extractEdgeGroup initializer sourceI eventTypeData ctx) =
       ctx_originalTargets ctx"
    "nodes (ctx_digraph (extractEdgeGroup initializer sourceI eventTypeData ctx)) =
       nodes (ctx_digraph ctx)"
    by (simp_all add: structure_of_def)
  moreover have
    "ctx_errors (extractEdgeGroup initializer sourceI eventTypeData ctx) \<noteq> []"
    "last (ctx_errors (extractEdgeGroup initializer sourceI eventTypeData ctx)) =
       transition_property_unhandled"
    unfolding eq by (simp_all add: push_errors_def)
  ultimately show ?thesis by blast
qed

theorem C10_spoiled_group_registers_nothing_witness:
  "list_ex yields_no_edge (elements_of spoiled_group) \<and>
   edges (ctx_digraph (extractEdgeGroup spoiled_group ''n'' ETalways (initial_context 0))) =
     Map.empty \<and>
   ctx_originalTargets (extractEdgeGroup spoiled_group ''n'' ETalways (initial_context 0)) = [] \<and>
   last (ctx_errors (extractEdgeGroup spoiled_group ''n'' ETalways (initial_context 0))) =
     transition_property_unhandled"
proof -
  have h: "list_ex yields_no_edge (elements_of spoiled_group)"
    by (simp add: spoiled_group_def elements_of_def yields_no_edge_def isForbiddenTarget_def
        isUndefined_def isStringLiteralLike_def)
  from C10_spoiled_group_registers_nothing [OF h, of "''n''" ETalways "initial_context 0"] h
  show ?thesis
    by (simp add: initial_context_def)
qed

section \<open>Duplicate keys of a state\<close>

lemma push_no_errors [simp]: "push_errors [] ctx = ctx"
  by (simp add: push_errors_def)

lemma seen_keys:
  "extractState_properties ps nodeId parentI ctx = Next (ctx1, seen) \<Longrightarrow>
     seen = {k. k \<noteq> [] \<and> list_ex (has_key k) ps}"
proof (induction ps arbitrary: ctx1 seen)
  case Nil
  then show ?case by auto
next
  case (Cons p ps)
  from Cons.prems obtain c0 s0 where
    r: "extractState_properties ps nodeId parentI ctx = Next (c0, s0)"
    by (cases "extractState_properties ps nodeId parentI ctx") auto
  note s0 = Cons.IH [OF r]
  show ?case
  proof (cases p)
    case (PropertyAssignment n e)
    obtain k es where k: "getPropertyKey n = (k, es)" by (cases "getPropertyKey n")
    show ?thesis
    proof (cases "truthy k")
      case False
      with Cons.prems r PropertyAssignment k have "seen = s0" by simp
      moreover from False k have "\<not> (x \<noteq> [] \<and> has_key x p)" for x
        by (auto simp: has_key_def PropertyAssignment truthy_def)
      ultimately show ?thesis using s0 by auto
    next
      case True
      then obtain key where key: "k = Some key" "key \<noteq> []"
        by (cases k) (auto simp: truthy_def)
      have hk: "has_key x p \<longleftrightarrow> x = key" for x
        using k key by (auto simp: has_key_def PropertyAssignment)
      from Cons.prems r PropertyAssignment k key True have "seen = insert key s0 \<or> (key \<in> s0 \<and> seen = s0)"
        by (auto simp: Let_def split: if_splits expression.splits flow.splits)
      then show ?thesis using s0 hk key by auto
    qed
  next
    case (ShorthandPropertyAssignment x)
    with Cons.prems r s0 show ?thesis by (auto simp: has_key_def)
  next
    case (SpreadAssignment x)
    with Cons.prems r s0 show ?thesis by (auto simp: has_key_def)
  next
    case MethodDeclaration
    with Cons.prems r s0 show ?thesis by (auto simp: has_key_def)
  next
    case GetAccessorDeclaration
    with Cons.prems r s0 show ?thesis by (auto simp: has_key_def)
  next
    case SetAccessorDeclaration
    with Cons.prems r s0 show ?thesis by (auto simp: has_key_def)
  qed
qed

lemma shadowed_property_skipped:
  assumes "getPropertyKey n = (Some k, [])" and "k \<noteq> []" and "list_ex (has_key k) after"
  shows "extractState_properties (before @ PropertyAssignment n e # after) nodeId parentI ctx =
         extractState_properties (before @ after) nodeId parentI ctx"
proof (induction before)
  case Nil
  show ?case
  proof (cases "extractState_properties after nodeId parentI ctx")
    case (Next x)
    obtain c0 s0 where x: "x = (c0, s0)" by (cases x)
    from seen_keys [OF Next [unfolded x]] assms(2,3) have "k \<in> s0" by simp
    with Next x assms(1,2) show ?thesis by (simp add: truthy_def)
  next
    case (ReturnUndefined c)
    then show ?thesis by simp
  qed
next
  case (Cons b before)
  then show ?case by simp
qed

text \<open>
  C1, counterexample. With two \<open>initial\<close> properties, \<open>"a"\<close> first and \<open>"b"\<close> second,
  the node's \<open>initial\<close> is \<open>"b"\<close>, the one declared last, and no error is recorded.
\<close>

theorem C1_first_declared_counterexample:
  "nodes (ctx_digraph (snd (extractState (initial_context 0) (Some two_initials) None
      ''(machine)''))) (token 0) =
     Some \<lparr>nuniqueId = token 0, nparentId = None,
           ndata = (plain_data ''(machine)'')\<lparr>ninitial := Some ''b''\<rparr>\<rparr> \<and>
   ctx_errors (snd (extractState (initial_context 0) (Some two_initials) None ''(machine)'')) = []"
  by (simp add: two_initials_def initial_context_def uniqueId_def token_def truthy_def
      state_property_def state_initial_def isStringLiteralLike_def literal_text_def set_node_data_def Let_def
      plain_data_def)

text \<open>
  C1, as amended. The occurrence declared last wins. A property assignment whose key is
  not empty, is read without a soft error of its own, and is declared again later in the
  same state literal is ignored altogether: extraction returns the same tree node and
  ends with the same context, errors included, as for the literal without that
  assignment.
\<close>

theorem C1_last_declared_wins:
  assumes "getPropertyKey n = (Some k, [])" and "k \<noteq> []" and "list_ex (has_key k) after"
  shows "extractState ctx (Some (ObjectLiteralExpression (before @ PropertyAssignment n e # after)))
           parentI key =
         extractState ctx (Some (ObjectLiteralExpression (before @ after))) parentI key"
  by (simp add: shadowed_property_skipped [OF assms])

theorem C1_last_declared_wins_witness:
  "extractState (initial_context 0) (Some two_initials) None ''(machine)'' =
   extractState (initial_context 0) (Some last_initial_only) None ''(machine)'' \<and>
   nodes (ctx_digraph (snd (extractState (initial_context 0) (Some last_initial_only) None
      ''(machine)''))) (token 0) =
     Some \<lparr>nuniqueId = token 0, nparentId = None,
           ndata = (plain_data ''(machine)'')\<lparr>ninitial := Some ''b''\<rparr>\<rparr>"
proof -
  have k: "getPropertyKey (IdentifierName ''initial'') = (Some ''initial'', [])" by simp
  have ne: "''initial'' \<noteq> []" by simp
  have later: "list_ex (has_key ''initial'')
     [PropertyAssignment (IdentifierName ''initial'') (StringLiteral doubleQuote ''b'')]"
    by (simp add: has_key_def)
  from C1_last_declared_wins [OF k ne later, of "initial_context 0" "[]"
      "StringLiteral doubleQuote ''a''" None "''(machine)''"]
  have "extractState (initial_context 0) (Some two_initials) None ''(machine)'' =
   extractState (initial_context 0) (Some last_initial_only) None ''(machine)''"
    by (simp add: two_initials_def last_initial_only_def)
  moreover have "nodes (ctx_digraph (snd (extractState (initial_context 0)
      (Some last_initial_only) None ''(machine)''))) (token 0) =
     Some \<lparr>nuniqueId = token 0, nparentId = None,
           ndata = (plain_data ''(machine)'')\<lparr>ninitial := Some ''b''\<rparr>\<rparr>"
    by (simp add: last_initial_only_def initial_context_def uniqueId_def token_def truthy_def
      state_property_def state_initial_def isStringLiteralLike_def literal_text_def set_node_data_def Let_def
      plain_data_def)
  ultimately show ?thesis by blast
qed

section \<open>When a state is left undefined\<close>

lemma left_undefined_simps [simp]:
  "left_undefined (Next x) = False" "left_undefined (ReturnUndefined c) = True"
  by (simp_all add: left_undefined_def)

lemma flow_context_simps [simp]:
  "flow_context f (Next x) = f x" "flow_context f (ReturnUndefined c) = c"
  by (simp_all add: flow_context_def)







section \<open>Tree nodes stay\<close>

lemma treeNodes_push [simp]: "ctx_treeNodes (push_errors es ctx) = ctx_treeNodes ctx"
  by (simp add: push_errors_def)

lemma treeNodes_set_node_data [simp]:
  "ctx_treeNodes (set_node_data i f ctx) = ctx_treeNodes ctx"
  by (simp add: set_node_data_def split: option.splits)

lemma treeNodes_of_structure:
  "structure_of a = structure_of b \<Longrightarrow> ctx_treeNodes a = ctx_treeNodes b"
  by (simp add: structure_of_def)

lemma treeNodes_register_edges [simp]:
  "ctx_treeNodes (register_edges es ctx) = ctx_treeNodes ctx"
proof (induction es ctx rule: register_edges.induct)
  case (1 ctx)
  show ?case by simp
next
  case (2 e targets rest ctx)
  then show ?case by (simp add: Let_def split: option.splits)
qed

lemma treeNodes_extractEdgeGroup [simp]:
  "ctx_treeNodes (extractEdgeGroup initializer s t ctx) = ctx_treeNodes ctx"
  using treeNodes_of_structure [OF structure_of_edge_elements [of initializer s t ctx]]
  by (simp add: extractEdgeGroup_def case_prod_beta)

lemma treeNodes_on_transitions [simp]:
  "ctx_treeNodes (flow_context id (on_transitions ts nodeId ctx)) = ctx_treeNodes ctx"
proof (induction ts arbitrary: ctx)
  case Nil
  show ?case by simp
next
  case (Cons t ts)
  show ?case
  proof (cases t)
    case (PropertyAssignment n e)
    then show ?thesis
      using Cons.IH by (simp add: case_prod_beta Let_def)
  qed simp_all
qed

lemma treeNodes_state_id [simp]: "ctx_treeNodes (state_id n e ctx) = ctx_treeNodes ctx"
  by (simp add: state_id_def)

lemma treeNodes_state_context [simp]: "ctx_treeNodes (state_context p e ctx) = ctx_treeNodes ctx"
  by (simp add: state_context_def case_prod_beta Let_def split: expression.splits option.splits)

lemma treeNodes_state_on [simp]:
  "ctx_treeNodes (flow_context id (state_on n e ctx)) = ctx_treeNodes ctx"
  by (cases e) (simp_all add: state_on_def)

lemma treeNodes_state_initial [simp]: "ctx_treeNodes (state_initial n e ctx) = ctx_treeNodes ctx"
  by (simp add: state_initial_def)

lemma treeNodes_state_type [simp]: "ctx_treeNodes (state_type n e ctx) = ctx_treeNodes ctx"
  by (simp add: state_type_def Let_def)

lemma treeNodes_state_history [simp]: "ctx_treeNodes (state_history n e ctx) = ctx_treeNodes ctx"
  by (simp add: state_history_def Let_def)

lemma treeNodes_state_description [simp]:
  "ctx_treeNodes (state_description n e ctx) = ctx_treeNodes ctx"
  by (simp add: state_description_def)

lemma treeNodes_state_meta [simp]: "ctx_treeNodes (state_meta n e ctx) = ctx_treeNodes ctx"
  by (simp add: state_meta_def case_prod_beta split: expression.splits)

lemma treeNodes_state_entry_exit [simp]:
  "ctx_treeNodes (state_entry_exit n k e ctx) = ctx_treeNodes ctx"
  using treeNodes_of_structure [OF structure_of_extractActionBlocks [of e n ctx]]
    treeNodes_of_structure [OF structure_of_registerActionBlocks]
  by (simp add: state_entry_exit_def case_prod_beta)

lemma structure_of_extractActorBlock [simp]:
  "structure_of (snd (extractActorBlock n ctx e)) = structure_of ctx"
  by (simp add: extractActorBlock_def Let_def case_prod_beta
      split: expression.splits option.splits)

lemma treeNodes_state_invoke [simp]:
  "ctx_treeNodes (state_invoke n e ctx) = ctx_treeNodes ctx"
proof -
  have m: "structure_of (snd (mapMaybeArrayElements e (extractActorBlock n) ctx)) = structure_of ctx"
    by (rule structure_of_mapMaybe) simp
  show ?thesis
    using treeNodes_of_structure [OF m] treeNodes_of_structure [OF structure_of_registerActorBlocks]
    by (simp add: state_invoke_def case_prod_beta)
qed

lemma treeNodes_state_property [simp]:
  "ctx_treeNodes (flow_context id (state_property n p k e ctx)) = ctx_treeNodes ctx"
  by (simp add: state_property_def)


section \<open>The absent digraph\<close>







section \<open>Resolving targets\<close>

lemma split_dot_nonempty [simp]: "split_dot t \<noteq> []"
  by (induction t) (auto split: list.splits)

lemma join_split_dot: "join_dot (split_dot t) = t"
proof (induction t)
  case Nil
  show ?case by simp
next
  case (Cons c cs)
  obtain w ws where s: "split_dot cs = w # ws"
    by (cases "split_dot cs") simp_all
  show ?case
  proof (cases "c = CHR ''.''")
    case True
    with Cons s show ?thesis by simp
  next
    case False
    with Cons s show ?thesis by (cases ws) simp_all
  qed
qed

lemma split_dot_segments: "list_all (\<lambda>seg. CHR ''.'' \<notin> set seg) (split_dot t)"
proof (induction t)
  case Nil
  show ?case by simp
next
  case (Cons c cs)
  then show ?case by (cases "split_dot cs") auto
qed

lemmas extraction_defs =
  initial_context_def uniqueId_def token_def truthy_def push_errors_def Let_def
  state_property_def state_id_def state_on_def state_initial_def
  extractEdgeGroup_def mapMaybeArrayElements_def extractEdge_def createEdge_def
  getObjectTransitionTargets_def findProperty_def transition_property_def
  isForbiddenTarget_def isUndefined_def isStringLiteralLike_def literal_text_def
  everyDefined_def set_node_data_def eval_nat_numeral

lemmas resolver_defs =
  resolveTargetId_def resolvePathOrigin_def children_at_def inherited_def
  Object_prototype_names_def resolveTargets_def extractMachineConfig_def
  extractProjectMachine_context_def

text \<open>
  C3, at a target named like a member of \<open>Object.prototype\<close>. Beside the target \<open>b\<close>,
  which resolves, the target \<open>missing\<close> records \<open>transition_target_unresolved\<close> and is
  dropped, as the claim says. The target \<open>toString\<close> is found among the children of the
  parent as an inherited name: it is dropped without \<open>transition_target_unresolved\<close>. The
  target \<open>constructor.x\<close> is found the same way and the walk to \<open>x\<close> throws, so that the
  extraction returns nothing, the target \<open>b\<close> beside it included.
\<close>

theorem C3_inherited_name_target:
  "errors_recorded (extractProjectMachine_context 0 (targets_call [''missing'', ''b''])) =
     Inr [transition_target_unresolved, transition_property_unhandled] \<and>
   targets_recorded (extractProjectMachine_context 0 (targets_call [''missing'', ''b'']))
     (token 2) = Some [token 3] \<and>
   errors_recorded (extractProjectMachine_context 0 (targets_call [''toString'', ''b''])) =
     Inr [transition_property_unhandled] \<and>
   targets_recorded (extractProjectMachine_context 0 (targets_call [''toString'', ''b'']))
     (token 2) = Some [token 3] \<and>
   extractProjectMachine_context 0 (targets_call [''constructor.x'', ''b'']) = Inl TypeError"
  by (simp add: errors_recorded_def targets_recorded_def targets_call_def nth_opt_def
      resolver_defs extraction_defs digraph.defs)

section \<open>Hard errors of the patch engine\<close>

lemma and_then_throws_cases:
  "and_then m f = Some (Inl e) \<Longrightarrow>
     m = Some (Inl e) \<or> (\<exists>x. m = Some (Inr x) \<and> f x = Some (Inl e))"
  by (auto simp: and_then_def split: option.splits sum.splits)

lemma findNodeByAstPath_walk_error:
  "findNodeByAstPath_walk cur path = Inl e \<Longrightarrow> e \<noteq> MachineNotFound"
  by (induction cur path rule: findNodeByAstPath_walk.induct)
    (auto split: option.splits expression.splits object_literal_element.splits)

lemma object_literal_at_error:
  "object_literal_at call st i = Inl e \<Longrightarrow> e \<noteq> MachineNotFound"
  by (auto simp: object_literal_at_def findNodeByAstPath_def
      split: option.splits sum.splits expression.splits
      dest: findNodeByAstPath_walk_error)

lemma findProperty_noctx_error:
  "findProperty_noctx props key = Inl e \<Longrightarrow> e \<noteq> MachineNotFound"
  by (auto simp: findProperty_noctx_def split: prod.splits list.splits)

lemma string_element_error: "string_element v m = Inl e \<Longrightarrow> e \<noteq> MachineNotFound"
  by (auto simp: string_element_def split: patch_value.splits)

lemma replace_key_error: "replace_key call st i v = Inl e \<Longrightarrow> e \<noteq> MachineNotFound"
  by (auto simp: replace_key_def findNodeByAstPath_def
      split: option.splits sum.splits expression.splits
      dest: findNodeByAstPath_walk_error)

lemma replace_initial_error: "replace_initial call st i v = Inl e \<Longrightarrow> e \<noteq> MachineNotFound"
  by (auto simp: replace_initial_def
      split: option.splits sum.splits if_splits prod.splits
      dest: object_literal_at_error findProperty_noctx_error string_element_error)

lemma replace_type_error: "replace_type call st i v = Inl e \<Longrightarrow> e \<noteq> MachineNotFound"
  by (auto simp: replace_type_def
      split: option.splits sum.splits if_splits prod.splits
      dest: object_literal_at_error findProperty_noctx_error string_element_error)

lemma replace_history_error: "replace_history call st i v = Inl e \<Longrightarrow> e \<noteq> MachineNotFound"
  by (auto simp: replace_history_def
      split: option.splits sum.splits if_splits prod.splits
      dest: object_literal_at_error findProperty_noctx_error string_element_error)

lemma replace_description_error:
  "replace_description call st i v = Inl e \<Longrightarrow> e \<noteq> MachineNotFound"
  by (auto simp: replace_description_def
      split: option.splits sum.splits if_splits prod.splits
      dest: object_literal_at_error findProperty_noctx_error string_element_error)

lemma add_node_error: "add_node call st v = Inl e \<Longrightarrow> e \<noteq> MachineNotFound"
  by (auto simp: add_node_def split: patch_value.splits sum.splits dest: object_literal_at_error)

lemma getTransitionInsertionPath_error:
  "getTransitionInsertionPath ed st = Inl e \<Longrightarrow> e \<noteq> MachineNotFound"
  by (auto simp: getTransitionInsertionPath_def Let_def
      split: option.splits event_type_data.splits)

lemma getPathNodes_loop_error:
  assumes "getPathNodes_loop ns current acc = Some r"
  shows "r \<noteq> Inl MachineNotFound"
  by (rule getPathNodes_loop.raw_induct
      [where P = "\<lambda>ns current acc r. r \<noteq> Inl MachineNotFound", OF _ assms])
    (auto split: option.splits if_splits)

lemma descriptor_climb_error:
  "descriptor_climb d idMap tp i cur k = Inl e \<Longrightarrow> e \<noteq> MachineNotFound"
  by (induction d idMap tp i cur k rule: descriptor_climb.induct)
    (auto simp: Let_def split: option.splits if_splits)

lemma getBestTargetDescriptor_error:
  "getBestTargetDescriptor s t st \<noteq> Some (Inl MachineNotFound)"
proof
  assume a: "getBestTargetDescriptor s t st = Some (Inl MachineNotFound)"
  have loop: "getPathNodes d n \<noteq> Some (Inl MachineNotFound)" for d n
    using getPathNodes_loop_error [of "nodes d" n "[n]"] by (auto simp: getPathNodes_def)
  from a show False
    by (auto simp: getBestTargetDescriptor_def Let_def throws_def returns_def lift_def loop
        split: option.splits if_splits
        dest!: and_then_throws_cases descriptor_climb_error)
qed

lemma descriptors_error: "descriptors s ts st \<noteq> Some (Inl MachineNotFound)"
proof (induction ts)
  case Nil
  show ?case by (simp add: returns_def)
next
  case (Cons t ts)
  show ?case
  proof
    assume "descriptors s (t # ts) st = Some (Inl MachineNotFound)"
    then show False
      using Cons getBestTargetDescriptor_error [of s t st]
      by (auto simp: returns_def dest!: and_then_throws_cases)
  qed
qed

lemma toTransitionElement_error: "toTransitionElement ed st \<noteq> Some (Inl MachineNotFound)"
proof
  assume "toTransitionElement ed st = Some (Inl MachineNotFound)"
  then show False
    using getBestTargetDescriptor_error descriptors_error
    by (auto simp: toTransitionElement_def Let_def returns_def throws_def
        split: list.splits option.splits if_splits
        dest!: and_then_throws_cases)
qed

lemma add_edge_error: "add_edge call st v \<noteq> Some (Inl MachineNotFound)"
proof
  assume "add_edge call st v = Some (Inl MachineNotFound)"
  then show False
    using toTransitionElement_error
    by (auto simp: add_edge_def returns_def throws_def
        split: patch_value.splits
        dest!: and_then_throws_cases
        dest: object_literal_at_error getTransitionInsertionPath_error)
qed

lemma patch_changes_error: "patch_changes call st p \<noteq> Some (Inl MachineNotFound)"
proof
  assume "patch_changes call st p = Some (Inl MachineNotFound)"
  then show False
    using add_edge_error [of call st "patch_val p"]
    by (auto simp: patch_changes_def Let_def returns_def
        split: patch_operation.splits if_splits
        dest: add_node_error replace_key_error replace_initial_error replace_type_error
          replace_history_error replace_description_error)
qed

lemma patches_changes_error: "patches_changes call st ps \<noteq> Some (Inl MachineNotFound)"
proof (induction ps)
  case Nil
  show ?case by (simp add: returns_def)
next
  case (Cons p ps)
  show ?case
  proof
    assume "patches_changes call st (p # ps) = Some (Inl MachineNotFound)"
    then show False
      using Cons patch_changes_error [of call st p]
      by (auto simp: returns_def dest!: and_then_throws_cases)
  qed
qed

section \<open>Machines of a project\<close>

lemma findOwnCreateMachineCall_not_found:
  "findOwnCreateMachineCall prog m = Inl MachineNotFound \<longleftrightarrow>
     (\<exists>sourceFile. prog (pm_fileName m) = Some sourceFile \<and>
        length (findCreateMachineCalls sourceFile) \<le> pm_machineIndex m)"
  by (auto simp: findOwnCreateMachineCall_def nth_opt_def split: option.splits)

lemma machine_applyPatches_not_found:
  "machine_applyPatches lib prog m patches = Some (m1, Inl MachineNotFound) \<longleftrightarrow>
     findOwnCreateMachineCall prog m = Inl MachineNotFound \<and> m1 = m"
proof (cases "findOwnCreateMachineCall prog m")
  case (Inl e)
  then show ?thesis by (auto simp: machine_applyPatches_def)
next
  case (Inr found)
  obtain sourceFile call where f: "found = (sourceFile, call)" by (cases found)
  show ?thesis
  proof (cases "pm_state m")
    case None
    with Inr f show ?thesis by (simp add: machine_applyPatches_def)
  next
    case (Some st)
    show ?thesis
    proof (cases "lib (pms_digraph st) patches")
      case None
      with Inr f Some show ?thesis by (simp add: machine_applyPatches_def)
    next
      case lib: (Some d)
      with Inr f Some patches_changes_error [of call "st\<lparr>pms_digraph := d\<rparr>" patches]
      show ?thesis
        by (auto simp: machine_applyPatches_def Let_def split: option.splits)
    qed
  qed
qed

lemma getDigraphs_states:
  "getDigraphs prog n ms = (ms1, n1, Inr rs) \<Longrightarrow>
     list_all2 (\<lambda>m m1. pm_state m1 \<noteq> None \<and> pm_fileName m1 = pm_fileName m \<and>
                  pm_machineIndex m1 = pm_machineIndex m) ms ms1"
proof (induction ms arbitrary: n ms1 n1 rs)
  case Nil
  then show ?case by simp
next
  case (Cons m ms)
  from Cons.prems obtain r m1 n2 where
    g: "machine_getDigraph prog n m = Inr (r, m1, n2)"
    by (cases "machine_getDigraph prog n m") auto
  from Cons.prems g obtain ms2 rs2 where
    rest: "getDigraphs prog n2 ms = (ms2, n1, Inr rs2)" and ms1: "ms1 = m1 # ms2"
    by (auto split: prod.splits sum.splits)
  from g have "pm_state m1 \<noteq> None \<and> pm_fileName m1 = pm_fileName m \<and>
                  pm_machineIndex m1 = pm_machineIndex m"
    by (auto simp: machine_getDigraph_def split: sum.splits prod.splits)
  with Cons.IH [OF rest] ms1 show ?case by simp
qed

lemma getMachinesInFile_creates:
  assumes "projectMachines proj fileName = None"
    and "currentProgram proj fileName = Some sourceFile"
    and "getMachinesInFile proj fileName = (proj1, Inr rs)"
  shows "(machine_at proj1 fileName i \<noteq> None) = (i < length (findCreateMachineCalls sourceFile))"
    and "machine_at proj1 fileName i = Some m \<Longrightarrow>
           pm_state m \<noteq> None \<and> pm_fileName m = fileName \<and> pm_machineIndex m = i"
proof -
  let ?created = "map (\<lambda>machineIndex.
        \<lparr>pm_fileName = fileName, pm_machineIndex = machineIndex, pm_state = None\<rparr>)
      [0 ..< length (findCreateMachineCalls sourceFile)]"
  from assms obtain ms1 n1 where
    g: "getDigraphs (currentProgram proj) (tokens_drawn proj) ?created = (ms1, n1, Inr rs)" and
    p1: "projectMachines proj1 fileName = Some ms1"
    by (auto simp: getMachinesInFile_def Let_def split: prod.splits)
  note all = getDigraphs_states [OF g]
  then have len: "length ms1 = length (findCreateMachineCalls sourceFile)"
    by (auto dest: list_all2_lengthD)
  with p1 show "(machine_at proj1 fileName i \<noteq> None) =
      (i < length (findCreateMachineCalls sourceFile))"
    by (simp add: machine_at_def nth_opt_def)
  assume "machine_at proj1 fileName i = Some m"
  with p1 len have i: "i < length (findCreateMachineCalls sourceFile)" and m: "m = ms1 ! i"
    by (auto simp: machine_at_def nth_opt_def split: if_splits)
  from all i len have "pm_state (ms1 ! i) \<noteq> None \<and> pm_fileName (ms1 ! i) = pm_fileName (?created ! i) \<and>
      pm_machineIndex (ms1 ! i) = pm_machineIndex (?created ! i)"
    by (auto simp: list_all2_conv_all_nth)
  with i m show "pm_state m \<noteq> None \<and> pm_fileName m = fileName \<and> pm_machineIndex m = i"
    by simp
qed

lemmas project_defs =
  createProject_def updateTsProgram_def getMachinesInFile_def machine_getDigraph_def
  findOwnCreateMachineCall_def findCreateMachineCalls_def extractProjectMachine_def
  extractProjectMachine_context_def extractMachineConfig_def resolveTargets_def
  machine_at_def has_state_def nth_opt_def one_machine_program_def no_machine_program_def
  project_applyPatches_def machine_applyPatches_def keep_digraph_def

text \<open>
  C7, counterexample. The machine of \<open>m.ts\<close> at index 0 was extracted, so the project has
  state for it; the program was then updated to one in which the file holds no call.
  Applying patches, even none, raises "machine not found".
\<close>

theorem C7_stale_machine_counterexample:
  "has_state stale_project ''m.ts'' 0 \<and>
   map_option snd (project_applyPatches keep_digraph stale_project ''m.ts'' 0 []) =
     Some (Inl MachineNotFound)"
  by (simp add: stale_project_def project_defs extraction_defs)

text \<open>
  C7, as amended. The project's \<open>applyPatches\<close> raises "machine not found" when the
  project keeps no machine for the file and index, which is so until \<open>getMachinesInFile\<close>
  has created the machines of the file; and when it keeps one, exactly when the machine's
  own lookup finds its file in the current program with no call at its index. A
  successful \<open>getMachinesInFile\<close> on a file not seen before creates one machine for each
  call of the file, each with state. When the machine is kept, its call is found, it has
  state and the patch library returns, the result is that of the loop over the patches:
  the recorded changes in order, or a hard error of the patch engine.
\<close>

theorem C7_machine_not_found:
  "(machine_at proj fileName machineIndex = None \<longrightarrow>
      project_applyPatches lib proj fileName machineIndex patches =
        Some (proj, Inl MachineNotFound)) \<and>
   (\<forall>m. machine_at proj fileName machineIndex = Some m \<longrightarrow>
      ((\<exists>proj1. project_applyPatches lib proj fileName machineIndex patches =
                  Some (proj1, Inl MachineNotFound)) \<longleftrightarrow>
       (\<exists>sourceFile. currentProgram proj (pm_fileName m) = Some sourceFile \<and>
          length (findCreateMachineCalls sourceFile) \<le> pm_machineIndex m)) \<and>
      (\<forall>sourceFile call st d.
         findOwnCreateMachineCall (currentProgram proj) m = Inr (sourceFile, call) \<and>
         pm_state m = Some st \<and> lib (pms_digraph st) patches = Some d \<longrightarrow>
         map_option snd (project_applyPatches lib proj fileName machineIndex patches) =
           patches_changes call (st\<lparr>pms_digraph := d\<rparr>) patches)) \<and>
   machine_at (createProject prog) fileName machineIndex = None \<and>
   (\<forall>sourceFile proj1 rs.
      projectMachines proj fileName = None \<and> currentProgram proj fileName = Some sourceFile \<and>
      getMachinesInFile proj fileName = (proj1, Inr rs) \<longrightarrow>
      (machine_at proj1 fileName machineIndex \<noteq> None) =
        (machineIndex < length (findCreateMachineCalls sourceFile)) \<and>
      (\<forall>m. machine_at proj1 fileName machineIndex = Some m \<longrightarrow>
         pm_state m \<noteq> None \<and> pm_fileName m = fileName \<and> pm_machineIndex m = machineIndex))"
proof (intro conjI impI allI)
  assume "machine_at proj fileName machineIndex = None"
  then show "project_applyPatches lib proj fileName machineIndex patches =
        Some (proj, Inl MachineNotFound)"
    by (simp add: project_applyPatches_def machine_at_def)
next
  fix m
  assume m: "machine_at proj fileName machineIndex = Some m"
  have run: "project_applyPatches lib proj fileName machineIndex patches =
      (case machine_applyPatches lib (currentProgram proj) m patches of
         None \<Rightarrow> None
       | Some (m1, r) \<Rightarrow>
           Some (proj\<lparr>projectMachines := (projectMachines proj)
                   (fileName \<mapsto> (the (projectMachines proj fileName))[machineIndex := m1])\<rparr>, r))"
    using m by (simp add: project_applyPatches_def machine_at_def)
  have "(\<exists>proj1. project_applyPatches lib proj fileName machineIndex patches =
                  Some (proj1, Inl MachineNotFound)) \<longleftrightarrow>
        (\<exists>m1. machine_applyPatches lib (currentProgram proj) m patches =
                  Some (m1, Inl MachineNotFound))"
    unfolding run by (auto split: option.splits)
  also have "\<dots> \<longleftrightarrow> findOwnCreateMachineCall (currentProgram proj) m = Inl MachineNotFound"
    by (simp add: machine_applyPatches_not_found)
  finally show "(\<exists>proj1. project_applyPatches lib proj fileName machineIndex patches =
                  Some (proj1, Inl MachineNotFound)) \<longleftrightarrow>
       (\<exists>sourceFile. currentProgram proj (pm_fileName m) = Some sourceFile \<and>
          length (findCreateMachineCalls sourceFile) \<le> pm_machineIndex m)"
    by (simp add: findOwnCreateMachineCall_not_found)
  fix sourceFile call st d
  assume "findOwnCreateMachineCall (currentProgram proj) m = Inr (sourceFile, call) \<and>
         pm_state m = Some st \<and> lib (pms_digraph st) patches = Some d"
  then show "map_option snd (project_applyPatches lib proj fileName machineIndex patches) =
           patches_changes call (st\<lparr>pms_digraph := d\<rparr>) patches"
    unfolding run
    by (auto simp: machine_applyPatches_def Let_def split: option.splits)
next
  show "machine_at (createProject prog) fileName machineIndex = None"
    by (simp add: machine_at_def createProject_def)
next
  fix sourceFile proj1 rs
  assume h: "projectMachines proj fileName = None \<and> currentProgram proj fileName = Some sourceFile \<and>
      getMachinesInFile proj fileName = (proj1, Inr rs)"
  then show "(machine_at proj1 fileName machineIndex \<noteq> None) =
        (machineIndex < length (findCreateMachineCalls sourceFile))"
    using getMachinesInFile_creates(1) [of proj fileName sourceFile proj1 rs machineIndex] by blast
  fix m
  assume "machine_at proj1 fileName machineIndex = Some m"
  with h show "pm_state m \<noteq> None" "pm_fileName m = fileName" "pm_machineIndex m = machineIndex"
    using getMachinesInFile_creates(2) [of proj fileName sourceFile proj1 rs machineIndex m]
    by blast+
qed

theorem C7_machine_not_found_witness:
  "project_applyPatches keep_digraph fresh_project ''m.ts'' 0 [] =
     Some (fresh_project, Inl MachineNotFound) \<and>
   map_option snd (project_applyPatches keep_digraph extracted_project ''m.ts'' 0 []) =
     Some (Inr [])"
proof -
  let ?sf = "\<lparr>statements = [], createMachineCalls = [\<lparr>arguments = []\<rparr>]\<rparr>"
  note fresh = C7_machine_not_found [of fresh_project "''m.ts''" 0 keep_digraph "[]"
      one_machine_program]
  have none: "machine_at fresh_project ''m.ts'' 0 = None"
    using fresh by (simp add: fresh_project_def)
  with fresh have 1: "project_applyPatches keep_digraph fresh_project ''m.ts'' 0 [] =
     Some (fresh_project, Inl MachineNotFound)"
    by blast
  have pm: "projectMachines fresh_project ''m.ts'' = None"
    by (simp add: fresh_project_def createProject_def)
  have cp: "currentProgram fresh_project ''m.ts'' = Some ?sf"
    by (simp add: fresh_project_def createProject_def one_machine_program_def)
  obtain rs where
    g: "getMachinesInFile fresh_project ''m.ts'' = (extracted_project, Inr rs)"
    by (simp add: extracted_project_def fresh_project_def project_defs extraction_defs)
  from fresh pm cp g have
    ex: "(machine_at extracted_project ''m.ts'' 0 \<noteq> None) =
           (0 < length (findCreateMachineCalls ?sf))" and
    st: "\<forall>m. machine_at extracted_project ''m.ts'' 0 = Some m \<longrightarrow>
           pm_state m \<noteq> None \<and> pm_fileName m = ''m.ts'' \<and> pm_machineIndex m = 0"
    by blast+
  from ex obtain m where m: "machine_at extracted_project ''m.ts'' 0 = Some m"
    by (auto simp: findCreateMachineCalls_def)
  with st obtain s where s: "pm_state m = Some s" and fn: "pm_fileName m = ''m.ts''"
    and ix: "pm_machineIndex m = 0"
    by auto
  have prog: "currentProgram extracted_project = one_machine_program"
    by (simp add: extracted_project_def fresh_project_def getMachinesInFile_def createProject_def
        Let_def one_machine_program_def split: prod.splits)
  have own: "findOwnCreateMachineCall (currentProgram extracted_project) m =
      Inr (?sf, \<lparr>arguments = []\<rparr>)"
    using fn ix prog
    by (simp add: findOwnCreateMachineCall_def one_machine_program_def
        findCreateMachineCalls_def nth_opt_def)
  have lib: "keep_digraph (pms_digraph s) [] = Some (pms_digraph s)"
    by (simp add: keep_digraph_def)
  from C7_machine_not_found [of extracted_project "''m.ts''" 0 keep_digraph "[]"
      one_machine_program] m own s lib
  have "map_option snd (project_applyPatches keep_digraph extracted_project ''m.ts'' 0 []) =
      patches_changes \<lparr>arguments = []\<rparr> (s\<lparr>pms_digraph := pms_digraph s\<rparr>) []"
    by blast
  then have 2: "map_option snd (project_applyPatches keep_digraph extracted_project ''m.ts'' 0 []) =
     Some (Inr [])"
    by (simp add: returns_def)
  from 1 2 show ?thesis by simp
qed

section \<open>The tree of an extraction\<close>

lemma token_nonempty [simp]: "token j \<noteq> []"
  by (simp add: token_def)

lemma token_length [simp]: "length (token j) = Suc j"
  by (simp add: token_def)

lemma token_inject [simp]: "token a = token b \<longleftrightarrow> a = b"
proof
  assume "token a = token b"
  then have "length (token a) = length (token b)" by simp
  then show "a = b" by simp
qed simp

lemma tree_node_facts:
  assumes "tree_invariant ctx" and "ctx_treeNodes ctx i = Some t"
  shows "tn_uniqueId t = i" and "i \<noteq> []"
    and "\<exists>nd. nodes (ctx_digraph ctx) i = Some nd \<and> nuniqueId nd = i \<and>
               nparentId nd = tn_parentId t"
proof -
  from assms have a: "tn_uniqueId t = i \<and> (\<exists>k. skeleton_of ctx i = Some (i, tn_parentId t, k))"
    unfolding tree_invariant_def by blast
  then show "tn_uniqueId t = i" by simp
  from assms have "\<exists>j<ctx_drawn ctx. i = token j"
    unfolding tree_invariant_def by blast
  then show "i \<noteq> []" by auto
  from a show "\<exists>nd. nodes (ctx_digraph ctx) i = Some nd \<and> nuniqueId nd = i \<and>
               nparentId nd = tn_parentId t"
    by (auto simp: skeleton_of_def node_skeleton_def)
qed

lemma child_facts:
  assumes "tree_invariant ctx" and "ctx_treeNodes ctx p = Some tp" and "tn_children tp k = Some c"
  shows "k \<noteq> []" and "length p < length c"
    and "\<exists>tc. ctx_treeNodes ctx c = Some tc \<and> tn_parentId tc = Some p \<and> tn_uniqueId tc = c"
    and "\<exists>nc. nodes (ctx_digraph ctx) c = Some nc \<and> nuniqueId nc = c \<and>
               nparentId nc = Some p \<and> nkey (ndata nc) = k"
proof -
  from assms have a: "k \<noteq> [] \<and> length p < length c \<and>
          (\<exists>tc. ctx_treeNodes ctx c = Some tc \<and> tn_parentId tc = Some p \<and>
                skeleton_of ctx c = Some (c, Some p, k))"
    unfolding tree_invariant_def by blast
  then show "k \<noteq> []" and "length p < length c" by simp_all
  from a obtain tc where tc: "ctx_treeNodes ctx c = Some tc" "tn_parentId tc = Some p"
    "skeleton_of ctx c = Some (c, Some p, k)"
    by blast
  from tree_node_facts(1) [OF assms(1) tc(1)] tc
  show "\<exists>tc. ctx_treeNodes ctx c = Some tc \<and> tn_parentId tc = Some p \<and> tn_uniqueId tc = c"
    by simp
  from tc(3) show "\<exists>nc. nodes (ctx_digraph ctx) c = Some nc \<and> nuniqueId nc = c \<and>
               nparentId nc = Some p \<and> nkey (ndata nc) = k"
    by (auto simp: skeleton_of_def node_skeleton_def)
qed

lemma descend_append:
  "descend ctx i (ks @ ls) =
     (case descend ctx i ks of None \<Rightarrow> None | Some x \<Rightarrow> descend ctx x ls)"
proof (induction ks arbitrary: i)
  case Nil
  show ?case by (cases ls) (simp_all split: option.splits)
next
  case (Cons k ks)
  then show ?case by (simp split: option.splits)
qed


lemma descend_take:
  assumes "descend ctx i ks = Some x"
  shows "\<exists>y. descend ctx i (take m ks) = Some y \<and> descend ctx y (drop m ks) = Some x"
proof -
  have "descend ctx i (take m ks @ drop m ks) = Some x" using assms by simp
  then show ?thesis
    unfolding descend_append by (auto split: option.splits)
qed

lemma descend_step:
  assumes "descend ctx i ks = Some p" and "m < length ks"
  shows "\<exists>a ta c. descend ctx i (take m ks) = Some a \<and> ctx_treeNodes ctx a = Some ta \<and>
           tn_children ta (ks ! m) = Some c \<and> descend ctx i (take (Suc m) ks) = Some c"
proof -
  from descend_take [OF assms(1), of "Suc m"] obtain c where
    c: "descend ctx i (take (Suc m) ks) = Some c" by blast
  from assms(2) have t: "take (Suc m) ks = take m ks @ [ks ! m]"
    by (simp add: take_Suc_conv_app_nth)
  from c show ?thesis
    unfolding t descend_append
    by (auto split: option.splits)
qed

lemma path_end_node:
  assumes "tree_invariant ctx" and "ctx_treeNodes ctx r = Some tr" and "tn_parentId tr = None"
    and "descend ctx r ks = Some x"
  shows "\<exists>nd. nodes (ctx_digraph ctx) x = Some nd \<and> nuniqueId nd = x \<and>
           (if ks = [] then x = r \<and> nparentId nd = None
            else nparentId nd = descend ctx r (butlast ks) \<and> truthy (nparentId nd) \<and>
                 nkey (ndata nd) = last ks)"
proof (cases ks rule: rev_cases)
  case Nil
  with assms(2,4) have "x = r" by simp
  with tree_node_facts(3) [OF assms(1,2)] assms(3) Nil show ?thesis by auto
next
  case (snoc ks0 k)
  from assms(4) obtain p tp where p: "descend ctx r ks0 = Some p"
    "ctx_treeNodes ctx p = Some tp" "tn_children tp k = Some x"
    unfolding snoc descend_append by (auto split: option.splits)
  from child_facts(4) [OF assms(1) p(2,3)] tree_node_facts(2) [OF assms(1) p(2)] p(1) snoc
  show ?thesis by (auto simp: truthy_def)
qed

lemma path_unique:
  assumes "tree_invariant ctx" and "ctx_treeNodes ctx r = Some tr" and "tn_parentId tr = None"
  shows "descend ctx r ks = Some x \<Longrightarrow> descend ctx r ks' = Some x \<Longrightarrow> ks = ks'"
proof (induction ks arbitrary: ks' x rule: rev_induct)
  case Nil
  from path_end_node [OF assms Nil(1)] path_end_node [OF assms Nil(2)]
  show ?case by (cases "ks' = []") (auto simp: truthy_def)
next
  case (snoc k ks0)
  from path_end_node [OF assms snoc(2)] obtain nd where
    nd: "nodes (ctx_digraph ctx) x = Some nd" "nparentId nd = descend ctx r ks0"
      "truthy (nparentId nd)" "nkey (ndata nd) = k"
    by auto
  from path_end_node [OF assms snoc(3)] nd have ne: "ks' \<noteq> []"
    by (auto simp: truthy_def split: if_splits)
  with path_end_node [OF assms snoc(3)] nd have
    up: "descend ctx r (butlast ks') = descend ctx r ks0" and k: "last ks' = k"
    by auto
  from nd(2,3) obtain p where p: "descend ctx r ks0 = Some p"
    by (auto simp: truthy_def split: option.splits)
  from snoc.IH [OF p up [unfolded p]] have "ks0 = butlast ks'" .
  with k ne show ?case by (metis append_butlast_last_id)
qed

lemma common_length_le:
  "m \<le> common_length xs ys \<longleftrightarrow> m \<le> length xs \<and> m \<le> length ys \<and> take m xs = take m ys"
proof (induction xs arbitrary: ys m)
  case Nil
  show ?case by auto
next
  case (Cons x xs)
  show ?case
  proof (cases ys)
    case Nil
    then show ?thesis by auto
  next
    case (Cons y ys')
    with Cons.IH [of _ ys'] show ?thesis by (cases m) auto
  qed
qed

lemma common_length_bounds:
  "common_length xs ys \<le> length xs" "common_length xs ys \<le> length ys"
  "take (common_length xs ys) xs = take (common_length xs ys) ys"
  using common_length_le [of "common_length xs ys" xs ys] by simp_all

lemma nodes_up_Nil: "nodes_up ctx r [] = [node_at ctx r []]"
  by (simp add: nodes_up_def)

lemma nodes_up_snoc: "nodes_up ctx r (ks @ [k]) = node_at ctx r (ks @ [k]) # nodes_up ctx r ks"
  by (simp add: nodes_up_def)

lemma length_nodes_up [simp]: "length (nodes_up ctx r ks) = Suc (length ks)"
  by (simp add: nodes_up_def)

lemma nodes_up_nth:
  "j \<le> length ks \<Longrightarrow> nodes_up ctx r ks ! j = node_at ctx r (take (length ks - j) ks)"
  by (simp add: nodes_up_def rev_nth del: upt_Suc)

lemma nodes_up_set:
  "set (nodes_up ctx r ks) = (\<lambda>m. node_at ctx r (take m ks)) ` {0 .. length ks}"
  by (simp add: nodes_up_def atLeastLessThanSuc_atLeastAtMost del: upt_Suc)

lemma nodes_up_hd: "nodes_up ctx r ks = node_at ctx r ks # tl (nodes_up ctx r ks)"
  by (cases ks rule: rev_cases) (simp_all add: nodes_up_Nil nodes_up_snoc)

lemma node_at_id:
  assumes "tree_invariant ctx" and "ctx_treeNodes ctx r = Some tr" and "tn_parentId tr = None"
    and "descend ctx r q = Some x"
  shows "nodes (ctx_digraph ctx) x = Some (node_at ctx r q)" and "nuniqueId (node_at ctx r q) = x"
  using path_end_node [OF assms] assms(4) by (auto simp: node_at_def)

lemma node_at_inject:
  assumes "tree_invariant ctx" and "ctx_treeNodes ctx r = Some tr" and "tn_parentId tr = None"
    and "descend ctx r q = Some x" and "descend ctx r q' = Some y"
    and "node_at ctx r q = node_at ctx r q'"
  shows "q = q'"
proof -
  from node_at_id(2) [OF assms(1-4)] node_at_id(2) [OF assms(1-3,5)] assms(6)
  have "x = y" by simp
  with path_unique [OF assms(1-4)] assms(5) show ?thesis by simp
qed

lemma node_at_parent:
  assumes "tree_invariant ctx" and "ctx_treeNodes ctx r = Some tr" and "tn_parentId tr = None"
    and "descend ctx r (ks @ [k]) = Some x"
  shows "\<exists>p. descend ctx r ks = Some p \<and> p \<noteq> [] \<and> nparentId (node_at ctx r (ks @ [k])) = Some p \<and>
           nkey (ndata (node_at ctx r (ks @ [k]))) = k \<and>
           nodes (ctx_digraph ctx) p = Some (node_at ctx r ks)"
proof -
  from path_end_node [OF assms] assms(4) obtain p where
    p: "descend ctx r ks = Some p" "nparentId (node_at ctx r (ks @ [k])) = Some p" "p \<noteq> []"
      "nkey (ndata (node_at ctx r (ks @ [k]))) = k"
    by (auto simp: node_at_def truthy_def split: option.splits)
  with node_at_id(1) [OF assms(1-3) p(1)] show ?thesis by simp
qed

lemma node_at_root:
  assumes "tree_invariant ctx" and "ctx_treeNodes ctx r = Some tr" and "tn_parentId tr = None"
  shows "nparentId (node_at ctx r []) = None" and "descend ctx r [] = Some r"
  using path_end_node [OF assms, of "[]" r] assms(2) by (auto simp: node_at_def)

lemma getPathNodes_loop_path:
  assumes "tree_invariant ctx" and "ctx_treeNodes ctx r = Some tr" and "tn_parentId tr = None"
  shows "descend ctx r ks = Some x \<Longrightarrow>
     getPathNodes_loop (nodes (ctx_digraph ctx)) (node_at ctx r ks) acc =
       Some (Inr (acc @ tl (nodes_up ctx r ks)))"
proof (induction ks arbitrary: x acc rule: rev_induct)
  case Nil
  from node_at_root(1) [OF assms] show ?case
    by (subst getPathNodes_loop.simps) (simp add: nodes_up_Nil)
next
  case (snoc k ks)
  from node_at_parent [OF assms snoc(2)] obtain p where
    p: "descend ctx r ks = Some p" "p \<noteq> []" "nparentId (node_at ctx r (ks @ [k])) = Some p"
      "nodes (ctx_digraph ctx) p = Some (node_at ctx r ks)"
    by blast
  have "getPathNodes_loop (nodes (ctx_digraph ctx)) (node_at ctx r (ks @ [k])) acc =
        getPathNodes_loop (nodes (ctx_digraph ctx)) (node_at ctx r ks) (acc @ [node_at ctx r ks])"
    using p by (subst getPathNodes_loop.simps) simp
  also have "\<dots> = Some (Inr ((acc @ [node_at ctx r ks]) @ tl (nodes_up ctx r ks)))"
    by (rule snoc.IH [OF p(1)])
  also have "(acc @ [node_at ctx r ks]) @ tl (nodes_up ctx r ks) = acc @ nodes_up ctx r ks"
    using nodes_up_hd [of ctx r ks] by simp
  finally show ?case by (simp add: nodes_up_snoc)
qed

lemma getPathNodes_path:
  assumes "tree_invariant ctx" and "ctx_treeNodes ctx r = Some tr" and "tn_parentId tr = None"
    and "descend ctx r ks = Some x" and "nodes d = nodes (ctx_digraph ctx)"
  shows "getPathNodes d (node_at ctx r ks) = returns (nodes_up ctx r ks)"
  using getPathNodes_loop_path [OF assms(1-4), of "[node_at ctx r ks]"] nodes_up_hd [of ctx r ks]
  by (simp add: getPathNodes_def assms(5) returns_def)

lemma on_source_path:
  assumes "tree_invariant ctx" and "ctx_treeNodes ctx r = Some tr" and "tn_parentId tr = None"
    and "descend ctx r ps = Some s" and "descend ctx r pt = Some t" and "m \<le> length pt"
  shows "node_at ctx r (take m pt) \<in> set (nodes_up ctx r ps) \<longleftrightarrow> m \<le> common_length ps pt"
proof
  assume "m \<le> common_length ps pt"
  then have "m \<le> length ps" "take m ps = take m pt"
    by (simp_all add: common_length_le)
  then show "node_at ctx r (take m pt) \<in> set (nodes_up ctx r ps)"
    unfolding nodes_up_set by (metis atLeastAtMost_iff image_eqI zero_le)
next
  assume "node_at ctx r (take m pt) \<in> set (nodes_up ctx r ps)"
  then obtain m' where m': "m' \<le> length ps" "node_at ctx r (take m pt) = node_at ctx r (take m' ps)"
    unfolding nodes_up_set by auto
  from descend_take [OF assms(5), of m] obtain x where x: "descend ctx r (take m pt) = Some x"
    by blast
  from descend_take [OF assms(4), of m'] obtain y where y: "descend ctx r (take m' ps) = Some y"
    by blast
  from node_at_inject [OF assms(1-3) x y m'(2)] have eq: "take m pt = take m' ps" .
  then have "length (take m pt) = length (take m' ps)" by simp
  with assms(6) m'(1) have "m = m'" by simp
  with eq m'(1) assms(6) show "m \<le> common_length ps pt"
    by (simp add: common_length_le)
qed

lemma common_node:
  assumes "tree_invariant ctx" and "ctx_treeNodes ctx r = Some tr" and "tn_parentId tr = None"
    and "descend ctx r ps = Some s" and "descend ctx r pt = Some t"
  shows "find (\<lambda>ancestor. ancestor \<in> set (nodes_up ctx r ps)) (nodes_up ctx r pt) =
           Some (node_at ctx r (take (common_length ps pt) pt))"
proof -
  let ?c = "common_length ps pt"
  have c: "?c \<le> length pt" by (rule common_length_bounds)
  have at: "nodes_up ctx r pt ! j = node_at ctx r (take (length pt - j) pt)" if "j \<le> length pt" for j
    using that by (rule nodes_up_nth)
  have on: "nodes_up ctx r pt ! j \<in> set (nodes_up ctx r ps) \<longleftrightarrow> length pt - j \<le> ?c"
    if "j \<le> length pt" for j
    using on_source_path [OF assms, of "length pt - j"] at [OF that] by simp
  show ?thesis
    unfolding find_Some_iff
  proof (intro exI [of _ "length pt - ?c"] conjI allI impI)
    show "length pt - ?c < length (nodes_up ctx r pt)" by simp
    show "nodes_up ctx r pt ! (length pt - ?c) \<in> set (nodes_up ctx r ps)"
      using on [of "length pt - ?c"] c by simp
    show "node_at ctx r (take ?c pt) = nodes_up ctx r pt ! (length pt - ?c)"
      using at [of "length pt - ?c"] c by simp
    fix j
    assume "j < length pt - ?c"
    then show "nodes_up ctx r pt ! j \<notin> set (nodes_up ctx r ps)"
      using on [of j] by simp
  qed
qed

lemma keys_of_take:
  assumes "tree_invariant ctx" and "ctx_treeNodes ctx r = Some tr" and "tn_parentId tr = None"
  shows "descend ctx r pt = Some t \<Longrightarrow> m \<le> length pt \<Longrightarrow>
     rev (map (\<lambda>n. nkey (ndata n)) (take m (nodes_up ctx r pt))) = drop (length pt - m) pt"
proof (induction pt arbitrary: t m rule: rev_induct)
  case Nil
  then show ?case by simp
next
  case (snoc k pt)
  from node_at_parent [OF assms snoc(2)] obtain p where
    p: "descend ctx r pt = Some p" "nkey (ndata (node_at ctx r (pt @ [k]))) = k"
    by blast
  show ?case
  proof (cases m)
    case 0
    then show ?thesis by simp
  next
    case (Suc m')
    with snoc(3) have "m' \<le> length pt" by simp
    from snoc.IH [OF p(1) this] p(2) Suc show ?thesis
      by (simp add: nodes_up_snoc)
  qed
qed

section \<open>Resolving a descriptor along the tree\<close>

lemma split_dot_plain:
  "CHR ''.'' \<notin> set k \<Longrightarrow> split_dot k = [k]"
  "CHR ''.'' \<notin> set k \<Longrightarrow> split_dot (k @ CHR ''.'' # rest) = k # split_dot rest"
  by (induction k) (auto split: list.splits)








section \<open>The descriptor of a target in the tree\<close>

lemma extracted_treeD:
  assumes "extracted_tree ctx st r"
  obtains tr d where "tree_invariant ctx" and "ctx_treeNodes ctx r = Some tr"
    and "tn_parentId tr = None" and "pms_digraph st = Some d"
    and "nodes d = nodes (ctx_digraph ctx)" and "root d = r"
    and "pms_idMap st = invert (ctx_idToNodeIdMap ctx)"
  using assms unfolding extracted_tree_def by blast



lemma common_is_source:
  assumes "common_length ps pt \<le> length ps"
    and "take (common_length ps pt) ps = take (common_length ps pt) pt"
  shows "take (common_length ps pt) pt = ps \<longleftrightarrow> common_length ps pt = length ps"
proof
  assume "take (common_length ps pt) pt = ps"
  then have "length (take (common_length ps pt) pt) = length ps" by simp
  with assms(1) show "common_length ps pt = length ps" by simp
next
  assume "common_length ps pt = length ps"
  with assms(2) show "take (common_length ps pt) pt = ps" by simp
qed

lemma common_is_parent:
  assumes "common_length ps pt \<le> length ps" and "ps \<noteq> []"
    and "take (common_length ps pt) ps = take (common_length ps pt) pt"
  shows "take (common_length ps pt) pt = butlast ps \<longleftrightarrow> common_length ps pt = length ps - 1"
proof
  assume "take (common_length ps pt) pt = butlast ps"
  then have "length (take (common_length ps pt) ps) = length (butlast ps)"
    using assms(3) by simp
  with assms(1,2) show "common_length ps pt = length ps - 1"
    by (cases ps rule: rev_cases) auto
next
  assume "common_length ps pt = length ps - 1"
  with assms(3) show "take (common_length ps pt) pt = butlast ps"
    by (simp add: butlast_conv_take)
qed

lemma descriptor_in_tree:
  assumes "extracted_tree ctx st r"
    and "descend ctx r ps = Some s" and "descend ctx r pt = Some t"
  shows "getBestTargetDescriptor s t st =
     (if pt = [] then returns (CHR ''#'' # id_or_default (map_of (pms_idMap st) t))
      else if s = t then returns (last pt)
      else if common_length ps pt = length ps
      then returns (CHR ''.'' # join_dot (drop (length ps) pt))
      else if ps \<noteq> [] \<and> common_length ps pt = length ps - 1
      then returns (join_dot (drop (length ps - 1) pt))
      else if truthy (map_of (pms_idMap st) t)
      then returns (CHR ''#'' # the (map_of (pms_idMap st) t))
      else lift (descriptor_climb (the (pms_digraph st)) (pms_idMap st) (nodes_up ctx r pt) 0
                   (Some (node_at ctx r pt)) (Suc (length pt))))"
proof -
  from assms(1) obtain tr d where
    inv: "tree_invariant ctx" and r: "ctx_treeNodes ctx r = Some tr" "tn_parentId tr = None"
    and d: "pms_digraph st = Some d" "nodes d = nodes (ctx_digraph ctx)"
    by (rule extracted_treeD)
  note base = inv r
  from node_at_id [OF base assms(3)] have
    t: "nodes (ctx_digraph ctx) t = Some (node_at ctx r pt)" "nuniqueId (node_at ctx r pt) = t"
    by simp_all
  from node_at_id [OF base assms(2)] have
    s: "nodes (ctx_digraph ctx) s = Some (node_at ctx r ps)" "nuniqueId (node_at ctx r ps) = s"
    by simp_all
  show ?thesis
  proof (cases "pt = []")
    case True
    with node_at_root(1) [OF base] show ?thesis
      by (simp add: getBestTargetDescriptor_def d t truthy_def)
  next
    case False
    then obtain pt0 k where pt: "pt = pt0 @ [k]" by (cases pt rule: rev_cases) auto
    from node_at_parent [OF base assms(3) [unfolded pt]] obtain p where
      p: "p \<noteq> []" "nparentId (node_at ctx r pt) = Some p" "nkey (ndata (node_at ctx r pt)) = k"
      unfolding pt by blast
    then have tp: "truthy (nparentId (node_at ctx r pt))" by (simp add: truthy_def)
    show ?thesis
    proof (cases "s = t")
      case True
      with False tp p(3) show ?thesis
        by (simp add: getBestTargetDescriptor_def d t pt)
    next
      case neq: False
      let ?c = "common_length ps pt"
      note cb = common_length_bounds [of ps pt]
      from descend_take [OF assms(3), of ?c] obtain x where
        x: "descend ctx r (take ?c pt) = Some x" by blast
      have src: "node_at ctx r (take ?c pt) = node_at ctx r ps \<longleftrightarrow> ?c = length ps"
      proof
        assume "node_at ctx r (take ?c pt) = node_at ctx r ps"
        from node_at_inject [OF base x assms(2) this] show "?c = length ps"
          using common_is_source [OF cb(1,3)] by simp
      next
        assume "?c = length ps"
        then show "node_at ctx r (take ?c pt) = node_at ctx r ps"
          using common_is_source [OF cb(1,3)] by simp
      qed
      have par: "truthy (nparentId (node_at ctx r ps)) \<and>
            Some (node_at ctx r (take ?c pt)) =
              nodes (ctx_digraph ctx) (the (nparentId (node_at ctx r ps))) \<longleftrightarrow>
          ps \<noteq> [] \<and> ?c = length ps - 1"
      proof (cases ps rule: rev_cases)
        case Nil
        with node_at_root(1) [OF base] show ?thesis by (simp add: truthy_def)
      next
        case (snoc ps0 j)
        from node_at_parent [OF base assms(2) [unfolded snoc]] obtain q where
          q: "descend ctx r ps0 = Some q" "q \<noteq> []" "nparentId (node_at ctx r ps) = Some q"
            "nodes (ctx_digraph ctx) q = Some (node_at ctx r ps0)"
          unfolding snoc by blast
        have "node_at ctx r (take ?c pt) = node_at ctx r ps0 \<longleftrightarrow> ?c = length ps - 1"
        proof
          assume "node_at ctx r (take ?c pt) = node_at ctx r ps0"
          from node_at_inject [OF base x q(1) this] show "?c = length ps - 1"
            using common_is_parent [OF cb(1) _ cb(3)] snoc by simp
        next
          assume "?c = length ps - 1"
          then show "node_at ctx r (take ?c pt) = node_at ctx r ps0"
            using common_is_parent [OF cb(1) _ cb(3)] snoc by simp
        qed
        with q snoc show ?thesis by (simp add: truthy_def)
      qed
      have below: "rev (map (\<lambda>n. nkey (ndata n))
            (slice_to_minus (nodes_up ctx r pt) (length (nodes_up ctx r ps)))) =
          drop (length ps) pt" if "?c = length ps"
      proof -
        from that cb(2) have le: "length ps \<le> length pt" by simp
        from keys_of_take [OF base assms(3), of "length pt - length ps"] le
        show ?thesis by (simp add: slice_to_minus_def)
      qed
      have beside: "rev (map (\<lambda>n. nkey (ndata n))
            (slice_to_minus (nodes_up ctx r pt) (length (nodes_up ctx r ps) - 1))) =
          drop (length ps - 1) pt" if "ps \<noteq> []" "?c = length ps - 1"
      proof -
        from that cb(2) have le: "length ps - 1 \<le> length pt" "0 < length ps" by simp_all
        then have m: "Suc (length pt) - length ps \<le> length pt"
          "length pt - (Suc (length pt) - length ps) = length ps - 1"
          by arith+
        from keys_of_take [OF base assms(3) m(1)] le m(2)
        show ?thesis by (simp add: slice_to_minus_def)
      qed
      have run: "getBestTargetDescriptor s t st =
          (let commonNode = Some (node_at ctx r (take ?c pt)) in
           if commonNode = Some (node_at ctx r ps)
           then returns (CHR ''.'' #
                  join_dot (rev (map (\<lambda>n. nkey (ndata n))
                    (slice_to_minus (nodes_up ctx r pt) (length (nodes_up ctx r ps))))))
           else if truthy (nparentId (node_at ctx r ps)) \<and>
                   commonNode = nodes (ctx_digraph ctx) (the (nparentId (node_at ctx r ps)))
           then returns
                  (join_dot (rev (map (\<lambda>n. nkey (ndata n))
                    (slice_to_minus (nodes_up ctx r pt) (length (nodes_up ctx r ps) - 1)))))
           else if truthy (map_of (pms_idMap st) t)
           then returns (CHR ''#'' # the (map_of (pms_idMap st) t))
           else lift (descriptor_climb d (pms_idMap st) (nodes_up ctx r pt) 0
                        (Some (node_at ctx r pt)) (length (nodes_up ctx r pt))))"
        using neq tp
        by (simp add: getBestTargetDescriptor_def d t s
            getPathNodes_path [OF base assms(3) d(2)] getPathNodes_path [OF base assms(2) d(2)]
            common_node [OF base assms(2,3)] del: length_nodes_up)
      have src': "(Some (node_at ctx r (take ?c pt)) = Some (node_at ctx r ps)) = (?c = length ps)"
        using src by simp
      show ?thesis
      proof (cases "?c = length ps")
        case True
        then show ?thesis
          unfolding run Let_def src' below [OF True]
          using False neq by simp
      next
        case c1: False
        show ?thesis
        proof (cases "ps \<noteq> [] \<and> ?c = length ps - 1")
          case True
          then have b: "rev (map (\<lambda>n. nkey (ndata n))
            (slice_to_minus (nodes_up ctx r pt) (length (nodes_up ctx r ps) - 1))) =
              drop (length ps - 1) pt"
            using beside by blast
          show ?thesis
            unfolding run Let_def src' par b
            using False neq c1 True by simp
        next
          case c2: False
          then have c2': "(ps \<noteq> [] \<and> ?c = length ps - 1) = False" by simp
          from c1 have c1': "(?c = length ps) = False" by simp
          show ?thesis
            unfolding run Let_def src' par c2' c1'
            using False neq by (simp add: d)
        qed
      qed
    qed
  qed
qed

section \<open>Resolving the descriptor of a target\<close>








section \<open>What the properties of a state leave alone\<close>

lemma kept_push [simp]: "kept n S T (push_errors es ctx) = kept n S T ctx"
  by (simp add: kept_def push_errors_def skeleton_of_def)

lemma kept_uniqueId [simp]: "kept n S T ctx \<Longrightarrow> kept n S T (snd (uniqueId ctx))"
  by (simp add: kept_def uniqueId_def skeleton_of_def)

lemma kept_createActionBlock [simp]:
  "kept n S T ctx \<Longrightarrow> kept n S T (snd (createActionBlock s p ctx))"
  by (simp add: createActionBlock_def case_prod_beta)

lemma kept_createActorBlock [simp]:
  "kept n S T ctx \<Longrightarrow> kept n S T (snd (createActorBlock s p a ctx))"
  by (simp add: createActorBlock_def case_prod_beta)

lemma kept_createEdge [simp]:
  "kept n S T ctx \<Longrightarrow> kept n S T (snd (createEdge s t ctx))"
  by (simp add: createEdge_def case_prod_beta)

lemma kept_map_elements:
  assumes "\<And>c e. kept n S T c \<Longrightarrow> kept n S T (snd (cb c e))"
  shows "kept n S T ctx \<Longrightarrow> kept n S T (snd (map_elements cb ctx es))"
proof (induction es arbitrary: ctx)
  case Nil
  then show ?case by simp
next
  case (Cons e es)
  from Cons.IH [OF assms [OF Cons.prems, of e]] show ?case
    by (simp add: case_prod_beta)
qed

lemma kept_mapMaybe:
  assumes "\<And>c e. kept n S T c \<Longrightarrow> kept n S T (snd (cb c e))"
  shows "kept n S T ctx \<Longrightarrow> kept n S T (snd (mapMaybeArrayElements x cb ctx))"
  using assms kept_map_elements [of n S T cb, OF assms]
  by (cases x) (simp_all add: mapMaybeArrayElements_def case_prod_beta)

lemma kept_extractActionBlock [simp]:
  "kept n S T ctx \<Longrightarrow> kept n S T (snd (extractActionBlock p ctx e))"
  by (simp add: extractActionBlock_def Let_def case_prod_beta
      split: expression.splits option.splits)

lemma kept_extractActionBlocks [simp]:
  "kept n S T ctx \<Longrightarrow> kept n S T (snd (extractActionBlocks x p ctx))"
  unfolding extractActionBlocks_def
  by (rule kept_mapMaybe) simp_all

lemma kept_blocks:
  "nodes d = nodes (ctx_digraph ctx) \<Longrightarrow> kept n S T (ctx\<lparr>ctx_digraph := d\<rparr>) = kept n S T ctx"
  by (simp add: kept_def skeleton_of_def)

lemma kept_registerActionBlocks [simp]:
  "kept n S T ctx \<Longrightarrow> kept n S T (snd (registerActionBlocks bs container ctx))"
proof (induction bs container ctx rule: registerActionBlocks.induct)
  case (1 parentContainer ctx)
  then show ?case by simp
next
  case (2 b bs parentContainer ctx)
  have "kept n S T (ctx\<lparr>ctx_digraph := register_action_implementation (sourceId b)
              ((ctx_digraph ctx)\<lparr>blocks := (blocks (ctx_digraph ctx))(buniqueId b \<mapsto> b)\<rparr>)\<rparr>)"
    using 2(2)
    by (subst kept_blocks) (simp_all add: register_action_implementation_def split: option.splits)
  from 2(1) [OF this] show ?case by simp
qed

lemma kept_registerActorBlocks [simp]:
  "kept n S T ctx \<Longrightarrow> kept n S T (snd (registerActorBlocks bs container ctx))"
proof (induction bs container ctx rule: registerActorBlocks.induct)
  case (1 parentContainer ctx)
  then show ?case by simp
next
  case (2 b bs parentContainer ctx)
  have "kept n S T (ctx\<lparr>ctx_digraph := register_actor_implementation (sourceId b)
              ((ctx_digraph ctx)\<lparr>blocks := (blocks (ctx_digraph ctx))(buniqueId b \<mapsto> b)\<rparr>)\<rparr>)"
    using 2(2)
    by (subst kept_blocks) (simp_all add: register_actor_implementation_def split: option.splits)
  from 2(1) [OF this] show ?case by simp
qed

lemma kept_getObjectTransitionTargets [simp]:
  "kept n S T ctx \<Longrightarrow> kept n S T (snd (getObjectTransitionTargets props ctx))"
proof -
  have cb: "kept n S T c0 \<Longrightarrow> kept n S T (snd (mapMaybeArrayElements x
              (\<lambda>c expression.
                 (if isStringLiteralLike expression then Some (literal_text expression) else None, c))
              c0))" for x c0
    by (rule kept_mapMaybe) simp_all
  assume "kept n S T ctx"
  then show ?thesis
    by (simp add: getObjectTransitionTargets_def Let_def case_prod_beta cb split: option.splits)
qed

lemma kept_transition_property [simp]:
  "kept n S T (fst s) \<Longrightarrow> kept n S T (fst (transition_property p s))"
  by (cases s)
    (simp add: transition_property_def Let_def case_prod_beta split: object_literal_element.splits)

lemma kept_transition_properties [simp]:
  "kept n S T (fst s) \<Longrightarrow> kept n S T (fst (foldr transition_property props s))"
  by (induction props) simp_all

lemma kept_extractEdge [simp]:
  "kept n S T ctx \<Longrightarrow> kept n S T (snd (extractEdge s t ctx element))"
  by (simp add: extractEdge_def Let_def case_prod_beta split: expression.splits)

lemma kept_extractActorBlock [simp]:
  "kept n S T ctx \<Longrightarrow> kept n S T (snd (extractActorBlock i ctx e))"
  by (simp add: extractActorBlock_def Let_def case_prod_beta
      split: expression.splits option.splits)

lemma kept_register_edges [simp]:
  "kept n S T ctx \<Longrightarrow> kept n S T (register_edges es ctx)"
proof (induction es ctx rule: register_edges.induct)
  case (1 ctx)
  then show ?case by simp
next
  case (2 e targets rest ctx)
  have "kept n S T (let ctx1 = ctx\<lparr>ctx_digraph :=
                     (ctx_digraph ctx)\<lparr>edges := (edges (ctx_digraph ctx))(euniqueId e \<mapsto> e)\<rparr>\<rparr>
        in case targets of
             None \<Rightarrow> ctx1
           | Some ts \<Rightarrow>
               ctx1\<lparr>ctx_originalTargets := AList.update (euniqueId e) ts (ctx_originalTargets ctx1)\<rparr>)"
    using 2(2) by (simp add: kept_def skeleton_of_def Let_def split: option.splits)
  from 2(1) [OF this] show ?case by simp
qed

lemma kept_extractEdgeGroup [simp]:
  assumes "kept n S T ctx"
  shows "kept n S T (extractEdgeGroup initializer s t ctx)"
proof -
  have "kept n S T (snd (mapMaybeArrayElements initializer (extractEdge s t) ctx))"
    by (rule kept_mapMaybe) (simp_all add: assms)
  then show ?thesis
    by (simp add: extractEdgeGroup_def case_prod_beta)
qed

lemma kept_on_transitions [simp]:
  "kept n S T ctx \<Longrightarrow> kept n S T (flow_context id (on_transitions ts nodeId ctx))"
proof (induction ts arbitrary: ctx)
  case Nil
  then show ?case by simp
next
  case (Cons t ts)
  show ?case
  proof (cases t)
    case (PropertyAssignment k e)
    then show ?thesis
      using Cons by (simp add: case_prod_beta Let_def)
  qed (use Cons.prems in simp_all)
qed

lemma kept_set_node_data:
  assumes "\<And>d. nkey (f d) = nkey d"
  shows "kept n S T (set_node_data i f ctx) = kept n S T ctx"
proof -
  have "skeleton_of (set_node_data i f ctx) = skeleton_of ctx"
    by (rule ext) (simp add: skeleton_of_def set_node_data_def node_skeleton_def assms
        split: option.splits)
  then show ?thesis
    by (simp add: kept_def set_node_data_def split: option.splits)
qed

lemma kept_state_id [simp]: "kept n S T ctx \<Longrightarrow> kept n S T (state_id i e ctx)"
  by (simp add: state_id_def kept_def skeleton_of_def distinct_update)

lemma kept_state_context [simp]: "kept n S T ctx \<Longrightarrow> kept n S T (state_context p e ctx)"
  by (simp add: state_context_def case_prod_beta Let_def kept_blocks
      split: expression.splits option.splits)

lemma kept_state_on [simp]:
  "kept n S T ctx \<Longrightarrow> kept n S T (flow_context id (state_on i e ctx))"
  by (cases e) (simp_all add: state_on_def)

lemma kept_state_initial [simp]: "kept n S T ctx \<Longrightarrow> kept n S T (state_initial i e ctx)"
  by (simp add: state_initial_def kept_set_node_data)

lemma kept_state_type [simp]: "kept n S T ctx \<Longrightarrow> kept n S T (state_type i e ctx)"
  by (simp add: state_type_def Let_def kept_set_node_data)

lemma kept_state_history [simp]: "kept n S T ctx \<Longrightarrow> kept n S T (state_history i e ctx)"
  by (simp add: state_history_def Let_def kept_set_node_data)

lemma kept_state_description [simp]:
  "kept n S T ctx \<Longrightarrow> kept n S T (state_description i e ctx)"
  by (simp add: state_description_def kept_set_node_data)

lemma kept_state_meta [simp]: "kept n S T ctx \<Longrightarrow> kept n S T (state_meta i e ctx)"
  by (simp add: state_meta_def case_prod_beta kept_set_node_data split: expression.splits)

lemma kept_state_entry_exit [simp]:
  "kept n S T ctx \<Longrightarrow> kept n S T (state_entry_exit i k e ctx)"
  by (simp add: state_entry_exit_def case_prod_beta kept_set_node_data)

lemma kept_state_invoke [simp]:
  assumes "kept n S T ctx"
  shows "kept n S T (state_invoke i e ctx)"
proof -
  have "kept n S T (snd (mapMaybeArrayElements e (extractActorBlock i) ctx))"
    by (rule kept_mapMaybe) (simp_all add: assms)
  then show ?thesis
    by (simp add: state_invoke_def case_prod_beta kept_set_node_data)
qed

lemma kept_state_property [simp]:
  "kept n S T ctx \<Longrightarrow> kept n S T (flow_context id (state_property i p k e ctx))"
  by (simp add: state_property_def)

section \<open>The tree grows under extraction\<close>

lemma tree_grows_refl [simp]: "tree_grows A ctx ctx"
  by (simp add: tree_grows_def)

lemma tree_grows_trans:
  assumes ab: "tree_grows A a b" and bc: "tree_grows B b c" and "A \<subseteq> C" and "B \<subseteq> C"
  shows "tree_grows C a c"
  unfolding tree_grows_def
proof (intro conjI allI impI)
  from ab bc show "ctx_drawn a \<le> ctx_drawn c"
    by (simp add: tree_grows_def)
next
  fix i
  assume "skeleton_of a i \<noteq> None"
  with ab have "skeleton_of b i = skeleton_of a i" by (simp add: tree_grows_def)
  moreover with \<open>skeleton_of a i \<noteq> None\<close> bc have "skeleton_of c i = skeleton_of b i"
    by (simp add: tree_grows_def)
  ultimately show "skeleton_of c i = skeleton_of a i" by simp
next
  fix i
  assume "ctx_treeNodes a i \<noteq> None"
  with ab have "ctx_treeNodes b i \<noteq> None" unfolding tree_grows_def by blast
  with bc show "ctx_treeNodes c i \<noteq> None" unfolding tree_grows_def by blast
next
  fix i
  assume i: "i \<notin> C" and a: "ctx_treeNodes a i \<noteq> None"
  from i assms(3,4) have "i \<notin> A" "i \<notin> B" by auto
  with ab a have "ctx_treeNodes b i = ctx_treeNodes a i" unfolding tree_grows_def by blast
  moreover with a bc \<open>i \<notin> B\<close> have "ctx_treeNodes c i = ctx_treeNodes b i"
    unfolding tree_grows_def by simp
  ultimately show "ctx_treeNodes c i = ctx_treeNodes a i" by simp
qed

lemma tree_grows_kept:
  "kept (ctx_drawn ctx) (skeleton_of ctx) (ctx_treeNodes ctx) ctx' \<Longrightarrow> tree_grows A ctx ctx'"
  by (simp add: kept_def tree_grows_def)

lemma kept_self:
  "tree_invariant ctx \<Longrightarrow> kept (ctx_drawn ctx) (skeleton_of ctx) (ctx_treeNodes ctx) ctx"
  by (simp add: kept_def tree_invariant_def)

lemma tree_invariant_kept:
  assumes "tree_invariant ctx" and "kept (ctx_drawn ctx) (skeleton_of ctx) (ctx_treeNodes ctx) ctx'"
  shows "tree_invariant ctx'"
proof -
  from assms(2) have k: "ctx_drawn ctx \<le> ctx_drawn ctx'" "skeleton_of ctx' = skeleton_of ctx"
    "ctx_treeNodes ctx' = ctx_treeNodes ctx" "distinct (map fst (ctx_idToNodeIdMap ctx'))"
    by (simp_all add: kept_def)
  have "\<exists>j<ctx_drawn ctx'. i = token j"
    if "ctx_treeNodes ctx i \<noteq> None \<or> skeleton_of ctx i \<noteq> None" for i
  proof -
    from assms(1) that obtain j where "j < ctx_drawn ctx" "i = token j"
      unfolding tree_invariant_def by blast
    with k(1) show ?thesis by (intro exI [of _ j]) simp
  qed
  with assms(1) show ?thesis
    unfolding tree_invariant_def k(2,3) using k(4) by blast
qed

lemma tree_invariant_fresh:
  assumes "tree_invariant ctx"
  shows "ctx_treeNodes ctx (token (ctx_drawn ctx)) = None"
    and "skeleton_of ctx (token (ctx_drawn ctx)) = None"
proof -
  have "\<not> (\<exists>j<ctx_drawn ctx. token (ctx_drawn ctx) = token j)" by simp
  with assms show "ctx_treeNodes ctx (token (ctx_drawn ctx)) = None"
    and "skeleton_of ctx (token (ctx_drawn ctx)) = None"
    unfolding tree_invariant_def by blast+
qed

lemma tree_invariant_older:
  assumes "tree_invariant ctx" and "ctx_treeNodes ctx i \<noteq> None"
  shows "length i < length (token (ctx_drawn ctx))"
proof -
  from assms obtain j where "j < ctx_drawn ctx" "i = token j"
    unfolding tree_invariant_def by blast
  then show ?thesis by simp
qed

text \<open>The node and the tree node a state starts with.\<close>

lemma tree_invariant_new_node:
  assumes inv: "tree_invariant ctx"
    and par: "\<And>p. parentI = Some p \<Longrightarrow> ctx_treeNodes ctx p \<noteq> None"
    and new: "ctx1 = (snd (uniqueId ctx))\<lparr>ctx_digraph :=
          (ctx_digraph (snd (uniqueId ctx)))\<lparr>nodes := (nodes (ctx_digraph (snd (uniqueId ctx))))
            (fst (uniqueId ctx) \<mapsto> \<lparr>nuniqueId = fst (uniqueId ctx), nparentId = parentI, ndata = dt\<rparr>)\<rparr>,
          ctx_treeNodes := (ctx_treeNodes (snd (uniqueId ctx)))
            (fst (uniqueId ctx) \<mapsto>
              \<lparr>tn_uniqueId = fst (uniqueId ctx), tn_parentId = parentI, tn_children = Map.empty\<rparr>)\<rparr>"
  shows "tree_invariant ctx1" and "tree_grows A ctx ctx1"
    and "skeleton_of ctx1 (token (ctx_drawn ctx)) = Some (token (ctx_drawn ctx), parentI, nkey dt)"
    and "ctx_treeNodes ctx1 (token (ctx_drawn ctx)) \<noteq> None"
proof -
  let ?i = "token (ctx_drawn ctx)"
  note fresh = tree_invariant_fresh [OF inv]
  have T: "ctx_treeNodes ctx1 = (ctx_treeNodes ctx)
      (?i \<mapsto> \<lparr>tn_uniqueId = ?i, tn_parentId = parentI, tn_children = Map.empty\<rparr>)"
    by (simp add: new uniqueId_def)
  have S: "skeleton_of ctx1 = (skeleton_of ctx)(?i \<mapsto> (?i, parentI, nkey dt))"
    by (rule ext) (simp add: new uniqueId_def skeleton_of_def node_skeleton_def)
  have dr: "ctx_drawn ctx1 = Suc (ctx_drawn ctx)"
    by (simp add: new uniqueId_def)
  have ids: "ctx_idToNodeIdMap ctx1 = ctx_idToNodeIdMap ctx"
    by (simp add: new uniqueId_def)
  show "skeleton_of ctx1 ?i = Some (?i, parentI, nkey dt)" by (simp add: S)
  show "ctx_treeNodes ctx1 ?i \<noteq> None" by (simp add: T)
  show "tree_grows A ctx ctx1"
    using fresh by (auto simp: tree_grows_def T S dr)
  have i1: "\<exists>j<ctx_drawn ctx1. i = token j"
    if "ctx_treeNodes ctx1 i \<noteq> None \<or> skeleton_of ctx1 i \<noteq> None" for i
  proof (cases "i = ?i")
    case True
    then show ?thesis by (intro exI [of _ "ctx_drawn ctx"]) (simp add: dr)
  next
    case False
    with that have "ctx_treeNodes ctx i \<noteq> None \<or> skeleton_of ctx i \<noteq> None"
      by (simp add: T S)
    with inv obtain j where "j < ctx_drawn ctx" "i = token j"
      unfolding tree_invariant_def by blast
    then show ?thesis by (intro exI [of _ j]) (simp add: dr)
  qed
  have i2: "tn_uniqueId t = i \<and> (\<exists>k. skeleton_of ctx1 i = Some (i, tn_parentId t, k))"
    if "ctx_treeNodes ctx1 i = Some t" for i t
  proof (cases "i = ?i")
    case True
    with that show ?thesis by (auto simp: T S)
  next
    case False
    with that have "ctx_treeNodes ctx i = Some t" by (simp add: T)
    with inv have "tn_uniqueId t = i \<and> (\<exists>k. skeleton_of ctx i = Some (i, tn_parentId t, k))"
      unfolding tree_invariant_def by blast
    with False show ?thesis by (simp add: S)
  qed
  have i3: "k \<noteq> [] \<and> length p < length c \<and>
          (\<exists>tc. ctx_treeNodes ctx1 c = Some tc \<and> tn_parentId tc = Some p \<and>
                skeleton_of ctx1 c = Some (c, Some p, k))"
    if "ctx_treeNodes ctx1 p = Some tp" "tn_children tp k = Some c" for p tp k c
  proof -
    from that have p: "p \<noteq> ?i" by (auto simp: T)
    with that have "ctx_treeNodes ctx p = Some tp" by (simp add: T)
    with inv that(2) have old: "k \<noteq> [] \<and> length p < length c \<and>
          (\<exists>tc. ctx_treeNodes ctx c = Some tc \<and> tn_parentId tc = Some p \<and>
                skeleton_of ctx c = Some (c, Some p, k))"
      unfolding tree_invariant_def by blast
    with fresh have "c \<noteq> ?i" by auto
    with old show ?thesis by (simp add: T S)
  qed
  from inv have "distinct (map fst (ctx_idToNodeIdMap ctx1))"
    by (simp add: ids tree_invariant_def)
  with i1 i2 i3 show "tree_invariant ctx1"
    unfolding tree_invariant_def by blast
qed

text \<open>A child is listed under its key.\<close>

lemma tree_invariant_child:
  assumes inv: "tree_invariant ctx"
    and t: "ctx_treeNodes ctx i = Some t"
    and c: "ctx_treeNodes ctx c \<noteq> None" "skeleton_of ctx c = Some (c, Some i, k)"
    and k: "k \<noteq> []" and older: "length i < length c"
    and new: "ctx1 = ctx\<lparr>ctx_treeNodes := (ctx_treeNodes ctx)
                (i \<mapsto> t\<lparr>tn_children := (tn_children t)(k \<mapsto> c)\<rparr>)\<rparr>"
  shows "tree_invariant ctx1" and "tree_grows {i} ctx ctx1"
proof -
  have T: "ctx_treeNodes ctx1 = (ctx_treeNodes ctx)
      (i \<mapsto> t\<lparr>tn_children := (tn_children t)(k \<mapsto> c)\<rparr>)"
    by (simp add: new)
  have S: "skeleton_of ctx1 = skeleton_of ctx"
    by (simp add: new skeleton_of_def)
  have dr: "ctx_drawn ctx1 = ctx_drawn ctx" and ids: "ctx_idToNodeIdMap ctx1 = ctx_idToNodeIdMap ctx"
    by (simp_all add: new)
  show "tree_grows {i} ctx ctx1"
    by (auto simp: tree_grows_def T S dr)
  have parent: "\<exists>t1. ctx_treeNodes ctx1 x = Some t1 \<and> tn_parentId t1 = tn_parentId tx"
    if "ctx_treeNodes ctx x = Some tx" for x tx
    using that t by (cases "x = i") (auto simp: T)
  have i1: "\<exists>j<ctx_drawn ctx1. x = token j"
    if "ctx_treeNodes ctx1 x \<noteq> None \<or> skeleton_of ctx1 x \<noteq> None" for x
  proof -
    from that t have "ctx_treeNodes ctx x \<noteq> None \<or> skeleton_of ctx x \<noteq> None"
      by (cases "x = i") (auto simp: T S)
    with inv show ?thesis unfolding tree_invariant_def dr by blast
  qed
  have i2: "tn_uniqueId tx = x \<and> (\<exists>k. skeleton_of ctx1 x = Some (x, tn_parentId tx, k))"
    if "ctx_treeNodes ctx1 x = Some tx" for x tx
  proof (cases "x = i")
    case True
    with that have "tx = t\<lparr>tn_children := (tn_children t)(k \<mapsto> c)\<rparr>" by (simp add: T)
    moreover from inv t have "tn_uniqueId t = i \<and> (\<exists>k. skeleton_of ctx i = Some (i, tn_parentId t, k))"
      unfolding tree_invariant_def by blast
    ultimately show ?thesis using True by (simp add: S)
  next
    case False
    with that have "ctx_treeNodes ctx x = Some tx" by (simp add: T)
    with inv show ?thesis unfolding tree_invariant_def S by blast
  qed
  have i3: "k' \<noteq> [] \<and> length p < length c' \<and>
          (\<exists>tc. ctx_treeNodes ctx1 c' = Some tc \<and> tn_parentId tc = Some p \<and>
                skeleton_of ctx1 c' = Some (c', Some p, k'))"
    if "ctx_treeNodes ctx1 p = Some tp" "tn_children tp k' = Some c'" for p tp k' c'
  proof (cases "p = i \<and> k' = k")
    case True
    with that have c': "c' = c" by (auto simp: T)
    from c(1) obtain tc where tc: "ctx_treeNodes ctx c = Some tc" by blast
    with inv have "\<exists>k. skeleton_of ctx c = Some (c, tn_parentId tc, k)"
      unfolding tree_invariant_def by blast
    with c(2) have "tn_parentId tc = Some i" by simp
    with parent [OF tc] True c' c(2) k older show ?thesis by (auto simp: S)
  next
    case False
    have "\<exists>tp0. ctx_treeNodes ctx p = Some tp0 \<and> tn_children tp0 k' = Some c'"
    proof (cases "p = i")
      case True
      with that False t show ?thesis by (auto simp: T)
    next
      case False
      with that show ?thesis by (simp add: T)
    qed
    with inv have old: "k' \<noteq> [] \<and> length p < length c' \<and>
          (\<exists>tc. ctx_treeNodes ctx c' = Some tc \<and> tn_parentId tc = Some p \<and>
                skeleton_of ctx c' = Some (c', Some p, k'))"
      unfolding tree_invariant_def by blast
    then obtain tc where tc: "ctx_treeNodes ctx c' = Some tc" "tn_parentId tc = Some p" by blast
    from parent [OF tc(1)] tc(2) old show ?thesis by (auto simp: S)
  qed
  from inv have "distinct (map fst (ctx_idToNodeIdMap ctx1))"
    by (simp add: ids tree_invariant_def)
  with i1 i2 i3 show "tree_invariant ctx1"
    unfolding tree_invariant_def by blast
qed

lemma tree_grows_closed:
  assumes ab: "tree_grows A a b" and bc: "tree_grows B b c"
    and new: "\<And>i. i \<in> B \<Longrightarrow> ctx_treeNodes a i = None"
  shows "tree_grows A a c"
  unfolding tree_grows_def
proof (intro conjI allI impI)
  from ab bc show "ctx_drawn a \<le> ctx_drawn c"
    by (simp add: tree_grows_def)
next
  fix i
  assume "skeleton_of a i \<noteq> None"
  with ab have "skeleton_of b i = skeleton_of a i" by (simp add: tree_grows_def)
  moreover with \<open>skeleton_of a i \<noteq> None\<close> bc have "skeleton_of c i = skeleton_of b i"
    by (simp add: tree_grows_def)
  ultimately show "skeleton_of c i = skeleton_of a i" by simp
next
  fix i
  assume "ctx_treeNodes a i \<noteq> None"
  with ab have "ctx_treeNodes b i \<noteq> None" unfolding tree_grows_def by blast
  with bc show "ctx_treeNodes c i \<noteq> None" unfolding tree_grows_def by blast
next
  fix i
  assume i: "i \<notin> A" and a: "ctx_treeNodes a i \<noteq> None"
  have "i \<notin> B" using new [of i] a by auto
  from ab a i have "ctx_treeNodes b i = ctx_treeNodes a i" unfolding tree_grows_def by blast
  moreover with a bc \<open>i \<notin> B\<close> have "ctx_treeNodes c i = ctx_treeNodes b i"
    unfolding tree_grows_def by simp
  ultimately show "ctx_treeNodes c i = ctx_treeNodes a i" by simp
qed

lemma skeleton_of_push [simp]: "skeleton_of (push_errors es ctx) = skeleton_of ctx"
  by (simp add: skeleton_of_def push_errors_def)

lemma drawn_push [simp]: "ctx_drawn (push_errors es ctx) = ctx_drawn ctx"
  by (simp add: push_errors_def)

lemma tree_invariant_push [simp]: "tree_invariant (push_errors es ctx) = tree_invariant ctx"
  by (simp add: tree_invariant_def) (simp add: push_errors_def)?

lemma tree_grows_push [simp]:
  "tree_grows A (push_errors es a) b = tree_grows A a b"
  "tree_grows A a (push_errors es b) = tree_grows A a b"
  by (simp_all add: tree_grows_def)

lemma tree_grows_node:
  "tree_grows A a b \<Longrightarrow> ctx_treeNodes a i \<noteq> None \<Longrightarrow> ctx_treeNodes b i \<noteq> None"
  unfolding tree_grows_def by blast

lemma extraction_grows:
  "tree_invariant ctx \<longrightarrow> (\<forall>p. parentI = Some p \<longrightarrow> ctx_treeNodes ctx p \<noteq> None) \<longrightarrow>
     tree_invariant (snd (extractState ctx state parentI k)) \<and>
     tree_grows {} ctx (snd (extractState ctx state parentI k)) \<and>
     skeleton_of (snd (extractState ctx state parentI k)) (token (ctx_drawn ctx)) =
       Some (token (ctx_drawn ctx), parentI, k) \<and>
     (\<forall>t. fst (extractState ctx state parentI k) = Some t \<longrightarrow>
        ctx_treeNodes (snd (extractState ctx state parentI k)) (token (ctx_drawn ctx)) = Some t)"
  "tree_invariant ctx1 \<longrightarrow> ctx_treeNodes ctx1 nodeId \<noteq> None \<longrightarrow>
     tree_invariant (flow_context fst (extractState_properties ps nodeId parentI1 ctx1)) \<and>
     tree_grows {nodeId} ctx1 (flow_context fst (extractState_properties ps nodeId parentI1 ctx1))"
  "tree_invariant ctx2 \<longrightarrow> ctx_treeNodes ctx2 nodeId2 \<noteq> None \<longrightarrow>
     tree_invariant (extractState_children cs nodeId2 ctx2) \<and>
     tree_grows {nodeId2} ctx2 (extractState_children cs nodeId2 ctx2)"
proof (induction ctx state parentI k and ps nodeId parentI1 ctx1 and cs nodeId2 ctx2
    rule: extractState_extractState_properties_extractState_children.induct)
  case (1 ctx state parentI k)
  let ?i = "token (ctx_drawn ctx)"
  let ?dt = "\<lparr>nkey = k, ninitial = None, ntype = ''normal'', nhistory = None,
                          nmetaEntries = [], nentry = [], nexit = [], ninvoke = [],
                          ntags = [], ndescription = None\<rparr>"
  let ?ctx1 = "(snd (uniqueId ctx))\<lparr>ctx_digraph :=
          (ctx_digraph (snd (uniqueId ctx)))\<lparr>nodes := (nodes (ctx_digraph (snd (uniqueId ctx))))
            (fst (uniqueId ctx) \<mapsto>
              \<lparr>nuniqueId = fst (uniqueId ctx), nparentId = parentI, ndata = ?dt\<rparr>)\<rparr>,
          ctx_treeNodes := (ctx_treeNodes (snd (uniqueId ctx)))
            (fst (uniqueId ctx) \<mapsto>
              \<lparr>tn_uniqueId = fst (uniqueId ctx), tn_parentId = parentI, tn_children = Map.empty\<rparr>)\<rparr>"
  show ?case
  proof (intro impI)
    assume inv: "tree_invariant ctx"
      and par: "\<forall>p. parentI = Some p \<longrightarrow> ctx_treeNodes ctx p \<noteq> None"
    from par have par': "\<And>p. parentI = Some p \<Longrightarrow> ctx_treeNodes ctx p \<noteq> None" by blast
    note new = tree_invariant_new_node [where parentI = parentI and dt = ?dt,
        OF inv par' refl]
    have inv1: "tree_invariant ?ctx1" by (rule new(1))
    have grow1: "tree_grows {} ctx ?ctx1" by (rule new(2))
    have skel1: "skeleton_of ?ctx1 ?i = Some (?i, parentI, k)" using new(3) by simp
    have node1: "ctx_treeNodes ?ctx1 ?i \<noteq> None" by (rule new(4))
    have fi: "fst (uniqueId ctx) = ?i" by (simp add: uniqueId_def)
    show "tree_invariant (snd (extractState ctx state parentI k)) \<and>
     tree_grows {} ctx (snd (extractState ctx state parentI k)) \<and>
     skeleton_of (snd (extractState ctx state parentI k)) ?i = Some (?i, parentI, k) \<and>
     (\<forall>t. fst (extractState ctx state parentI k) = Some t \<longrightarrow>
        ctx_treeNodes (snd (extractState ctx state parentI k)) ?i = Some t)"
    proof (cases state)
      case None
      then have r: "extractState ctx state parentI k = (ctx_treeNodes ?ctx1 ?i, ?ctx1)"
        by (simp add: case_prod_beta Let_def fi)
      show ?thesis
        unfolding r using inv1 grow1 skel1 by simp
    next
      case (Some e)
      show ?thesis
      proof (cases "\<exists>props. e = ObjectLiteralExpression props")
        case False
        with Some have r: "extractState ctx state parentI k =
            (ctx_treeNodes ?ctx1 ?i, push_errors [state_unhandled] ?ctx1)"
          by (cases e) (simp_all add: case_prod_beta Let_def fi)
        show ?thesis
          unfolding r using inv1 grow1 skel1 by simp
      next
        case True
        then obtain props where e: "e = ObjectLiteralExpression props" by blast
        let ?r = "extractState_properties props (fst (uniqueId ctx)) parentI ?ctx1"
        let ?c = "flow_context fst ?r"
        have IH: "tree_invariant ?ctx1 \<longrightarrow> ctx_treeNodes ?ctx1 (fst (uniqueId ctx)) \<noteq> None \<longrightarrow>
            tree_invariant ?c \<and> tree_grows {fst (uniqueId ctx)} ?ctx1 ?c"
          by (rule "1.IH" [OF _ refl refl refl Some e]) simp
        with inv1 node1 have inv2: "tree_invariant ?c" and grow2: "tree_grows {?i} ?ctx1 ?c"
          by (simp_all add: fi)
        have grow: "tree_grows {} ctx ?c"
          by (rule tree_grows_closed [OF grow1 grow2])
            (use tree_invariant_fresh(1) [OF inv] in simp)
        from grow2 skel1 have skel: "skeleton_of ?c ?i = Some (?i, parentI, k)"
          by (simp add: tree_grows_def)
        have r: "snd (extractState ctx state parentI k) = ?c"
          using Some e by (cases ?r) (auto simp: case_prod_beta Let_def)
        have res: "ctx_treeNodes ?c ?i = Some t" if "fst (extractState ctx state parentI k) = Some t" for t
          using that Some e by (cases ?r) (auto simp: case_prod_beta Let_def fi)
        show ?thesis
          unfolding r using inv2 grow skel res by blast
      qed
    qed
  qed
next
  case (2 nodeId parentI ctx)
  show ?case by simp
next
  case (3 p ps nodeId parentI ctx)
  show ?case
  proof (intro impI)
    assume inv: "tree_invariant ctx" and node: "ctx_treeNodes ctx nodeId \<noteq> None"
    let ?r0 = "extractState_properties ps nodeId parentI ctx"
    from "3.IH"(1) inv node have
      inv0: "tree_invariant (flow_context fst ?r0)" and
      grow0: "tree_grows {nodeId} ctx (flow_context fst ?r0)"
      by simp_all
    show "tree_invariant (flow_context fst (extractState_properties (p # ps) nodeId parentI ctx)) \<and>
      tree_grows {nodeId} ctx (flow_context fst (extractState_properties (p # ps) nodeId parentI ctx))"
    proof (cases ?r0)
      case (ReturnUndefined c)
      with inv0 grow0 show ?thesis by simp
    next
      case (Next x)
      obtain c0 s0 where x: "x = (c0, s0)" by (cases x)
      from inv0 grow0 Next x have inv1: "tree_invariant c0" and grow1: "tree_grows {nodeId} ctx c0"
        by simp_all
      from tree_grows_node [OF grow1 node] have node1: "ctx_treeNodes c0 nodeId \<noteq> None" .
      have step: "tree_invariant c' \<and> tree_grows {nodeId} ctx c'"
        if "tree_invariant c' \<and> tree_grows {nodeId} c0 c'" for c'
        using that tree_grows_trans [OF grow1 _ subset_refl subset_refl] by blast
      show ?thesis
      proof (cases p)
        case (PropertyAssignment n e)
        obtain k es where k: "getPropertyKey n = (k, es)" by (cases "getPropertyKey n")
        show ?thesis
        proof (cases "truthy k \<and> the k \<notin> s0")
          case False
          have "tree_invariant (flow_context fst (extractState_properties (p # ps) nodeId parentI ctx)) \<and>
            tree_grows {nodeId} c0 (flow_context fst (extractState_properties (p # ps) nodeId parentI ctx))"
            using False Next x PropertyAssignment k inv1 by (auto simp: Let_def)
          then show ?thesis by (rule step)
        next
          case True
          show ?thesis
          proof (cases "the k = ''states''")
            case states: True
            show ?thesis
            proof (cases "\<exists>cs. e = ObjectLiteralExpression cs")
              case False
              have "tree_invariant (flow_context fst (extractState_properties (p # ps) nodeId parentI ctx)) \<and>
                tree_grows {nodeId} c0 (flow_context fst (extractState_properties (p # ps) nodeId parentI ctx))"
                using False Next x PropertyAssignment k inv1 True states
                by (cases e) (auto simp: Let_def)
              then show ?thesis by (rule step)
            next
              case obj: True
              then obtain cs where e: "e = ObjectLiteralExpression cs" by blast
              have "tree_invariant (push_errors es c0) \<longrightarrow>
                  ctx_treeNodes (push_errors es c0) nodeId \<noteq> None \<longrightarrow>
                  tree_invariant (extractState_children cs nodeId (push_errors es c0)) \<and>
                  tree_grows {nodeId} (push_errors es c0)
                    (extractState_children cs nodeId (push_errors es c0))"
                using "3.IH"(2) [OF Next x [symmetric] PropertyAssignment k [symmetric] refl _ _ states e]
                  True by simp
              with inv1 node1 have
                "tree_invariant (extractState_children cs nodeId (push_errors es c0)) \<and>
                 tree_grows {nodeId} c0 (extractState_children cs nodeId (push_errors es c0))"
                by simp
              then have "tree_invariant (flow_context fst (extractState_properties (p # ps) nodeId parentI ctx)) \<and>
                tree_grows {nodeId} c0 (flow_context fst (extractState_properties (p # ps) nodeId parentI ctx))"
                using Next x PropertyAssignment k True states e by (simp add: Let_def)
              then show ?thesis by (rule step)
            qed
          next
            case other: False
            let ?h = "flow_context id (state_property nodeId parentI (the k) e (push_errors es c0))"
            have kept: "kept (ctx_drawn c0) (skeleton_of c0) (ctx_treeNodes c0) ?h"
              using kept_self [OF inv1] by simp
            have r: "flow_context fst (extractState_properties (p # ps) nodeId parentI ctx) = ?h"
              using Next x PropertyAssignment k True other
              by (cases "state_property nodeId parentI (the k) e (push_errors es c0)")
                (auto simp: Let_def)
            from tree_invariant_kept [OF inv1 kept] tree_grows_kept [OF kept]
            have "tree_invariant ?h \<and> tree_grows {nodeId} c0 ?h" by simp
            then show ?thesis unfolding r by (rule step)
          qed
        qed
      next
        case (ShorthandPropertyAssignment s)
        with Next x inv1 have "tree_invariant (flow_context fst (extractState_properties (p # ps) nodeId parentI ctx)) \<and>
            tree_grows {nodeId} c0 (flow_context fst (extractState_properties (p # ps) nodeId parentI ctx))"
          by simp
        then show ?thesis by (rule step)
      next
        case (SpreadAssignment s)
        with Next x inv1 have "tree_invariant (flow_context fst (extractState_properties (p # ps) nodeId parentI ctx)) \<and>
            tree_grows {nodeId} c0 (flow_context fst (extractState_properties (p # ps) nodeId parentI ctx))"
          by simp
        then show ?thesis by (rule step)
      next
        case MethodDeclaration
        with Next x inv1 have "tree_invariant (flow_context fst (extractState_properties (p # ps) nodeId parentI ctx)) \<and>
            tree_grows {nodeId} c0 (flow_context fst (extractState_properties (p # ps) nodeId parentI ctx))"
          by simp
        then show ?thesis by (rule step)
      next
        case GetAccessorDeclaration
        with Next x inv1 have "tree_invariant (flow_context fst (extractState_properties (p # ps) nodeId parentI ctx)) \<and>
            tree_grows {nodeId} c0 (flow_context fst (extractState_properties (p # ps) nodeId parentI ctx))"
          by simp
        then show ?thesis by (rule step)
      next
        case SetAccessorDeclaration
        with Next x inv1 have "tree_invariant (flow_context fst (extractState_properties (p # ps) nodeId parentI ctx)) \<and>
            tree_grows {nodeId} c0 (flow_context fst (extractState_properties (p # ps) nodeId parentI ctx))"
          by simp
        then show ?thesis by (rule step)
      qed
    qed
  qed
next
  case (4 nodeId ctx)
  show ?case by simp
next
  case (5 c cs nodeId ctx)
  let ?step = "(case c of
         PropertyAssignment n initializer \<Rightarrow>
           case getPropertyKey n of
           (childKey, es) \<Rightarrow>
             let ctx1 = push_errors es ctx
             in if truthy childKey
                then case extractState ctx1 (Some initializer) (Some nodeId)
                           (the childKey) of
                     (None, ctx2) \<Rightarrow> ctx2
                     | (Some childTreeNode, ctx2) \<Rightarrow>
                         case ctx_treeNodes ctx2 nodeId of None \<Rightarrow> ctx2
                         | Some t \<Rightarrow>
                             ctx2
                             \<lparr>ctx_treeNodes :=
                                (ctx_treeNodes ctx2)
                                (nodeId \<mapsto>
                                   t\<lparr>tn_children :=
 (tn_children t)(the childKey \<mapsto> tn_uniqueId childTreeNode)\<rparr>)\<rparr>
                else ctx1
         | _ \<Rightarrow> push_errors [state_property_unhandled] ctx)"
  show ?case
  proof (intro impI)
    assume inv: "tree_invariant ctx" and node: "ctx_treeNodes ctx nodeId \<noteq> None"
    have step: "tree_invariant ?step \<and> tree_grows {nodeId} ctx ?step"
    proof (cases c)
      case (PropertyAssignment n e)
      obtain k es where k: "getPropertyKey n = (k, es)" by (cases "getPropertyKey n")
      show ?thesis
      proof (cases "truthy k")
        case False
        with PropertyAssignment k inv show ?thesis by simp
      next
        case True
        let ?c1 = "push_errors es ctx"
        let ?x = "extractState ?c1 (Some e) (Some nodeId) (the k)"
        let ?i = "token (ctx_drawn ?c1)"
        have "tree_invariant ?c1 \<longrightarrow> (\<forall>p. Some nodeId = Some p \<longrightarrow> ctx_treeNodes ?c1 p \<noteq> None) \<longrightarrow>
           tree_invariant (snd ?x) \<and> tree_grows {} ?c1 (snd ?x) \<and>
           skeleton_of (snd ?x) ?i = Some (?i, Some nodeId, the k) \<and>
           (\<forall>t. fst ?x = Some t \<longrightarrow> ctx_treeNodes (snd ?x) ?i = Some t)"
          by (rule "5.IH"(1) [OF PropertyAssignment k [symmetric] refl True])
        with inv node have
          inv2: "tree_invariant (snd ?x)" and grow2: "tree_grows {} ctx (snd ?x)" and
          skel2: "skeleton_of (snd ?x) ?i = Some (?i, Some nodeId, the k)" and
          res2: "\<And>t. fst ?x = Some t \<Longrightarrow> ctx_treeNodes (snd ?x) ?i = Some t"
          by simp_all
        from tree_grows_node [OF grow2 node] obtain t where
          t: "ctx_treeNodes (snd ?x) nodeId = Some t" by blast
        show ?thesis
        proof (cases "fst ?x")
          case None
          have "?step = snd ?x"
            using PropertyAssignment k True None
            by (simp add: Let_def case_prod_beta del: extractState.simps)
          with inv2 grow2 show ?thesis
            using tree_grows_trans [OF grow2 tree_grows_refl [of "{nodeId}"]]
            by simp
        next
          case (Some tc)
          from res2 [OF Some] have tc: "ctx_treeNodes (snd ?x) ?i = Some tc" .
          with inv2 have ti: "tn_uniqueId tc = ?i"
            by (rule tree_node_facts(1))
          let ?c3 = "(snd ?x)\<lparr>ctx_treeNodes := (ctx_treeNodes (snd ?x))
                (nodeId \<mapsto> t\<lparr>tn_children := (tn_children t)(the k \<mapsto> ?i)\<rparr>)\<rparr>"
          have eq: "?step = ?c3"
            using PropertyAssignment k True Some t ti
            by (simp add: Let_def case_prod_beta del: extractState.simps)
          from True have ne: "the k \<noteq> []" by (auto simp: truthy_def split: option.splits)
          from tree_invariant_older [OF inv node] have older: "length nodeId < length ?i" by simp
          from tc have tcn: "ctx_treeNodes (snd ?x) ?i \<noteq> None" by simp
          note child = tree_invariant_child [OF inv2 t tcn skel2 ne older refl]
          from child(1) tree_grows_trans [OF grow2 child(2)] show ?thesis
            unfolding eq by simp
        qed
      qed
    qed (use inv in simp_all)
    then have inv1: "tree_invariant ?step" and grow1: "tree_grows {nodeId} ctx ?step" by simp_all
    from tree_grows_node [OF grow1 node] have node1: "ctx_treeNodes ?step nodeId \<noteq> None" .
    from "5.IH"(2) inv1 node1 have
      "tree_invariant (extractState_children cs nodeId ?step)"
      "tree_grows {nodeId} ?step (extractState_children cs nodeId ?step)"
      by simp_all
    with tree_grows_trans [OF grow1 _ subset_refl subset_refl]
    show "tree_invariant (extractState_children (c # cs) nodeId ctx) \<and>
      tree_grows {nodeId} ctx (extractState_children (c # cs) nodeId ctx)"
      by simp
  qed
qed

section \<open>Resolving the targets keeps the tree\<close>

lemma kept_resolveTargetId:
  "kept n S T ctx \<Longrightarrow> resolveTargetId ctx s t = Inr (r, c) \<Longrightarrow> kept n S T c"
  by (auto simp: resolveTargetId_def split: sum.splits option.splits)

lemma kept_resolveEdgeTargets:
  "kept n S T ctx \<Longrightarrow> resolveEdgeTargets edgeId ts ctx = Inr c \<Longrightarrow> kept n S T c"
proof (induction ts arbitrary: ctx)
  case Nil
  then show ?case by simp
next
  case (Cons t ts)
  from Cons.prems(2) obtain e where e: "edges (ctx_digraph ctx) edgeId = Some e"
    by (auto split: option.splits)
  with Cons.prems(2) obtain r c1 where r: "resolveTargetId ctx (esource e) t = Inr (r, c1)"
    by (auto split: sum.splits)
  from kept_resolveTargetId [OF Cons.prems(1) r] have k1: "kept n S T c1" .
  let ?next = "if \<not> truthy r then push_errors [transition_property_unhandled] c1
     else c1\<lparr>ctx_digraph := (ctx_digraph c1)
            \<lparr>edges := (edges (ctx_digraph c1))
               (edgeId \<mapsto> e\<lparr>etargets := etargets e @ [the r]\<rparr>)\<rparr>\<rparr>"
  from k1 have k2: "kept n S T ?next" by (simp add: kept_blocks)
  from Cons.prems(2) e r have "resolveEdgeTargets edgeId ts ?next = Inr c"
    by (cases "truthy r") simp_all
  from Cons.IH [OF k2 this] show ?case .
qed

lemma kept_resolveTargets_entries:
  "kept n S T ctx \<Longrightarrow> resolveTargets_entries es ctx = Inr c \<Longrightarrow> kept n S T c"
proof (induction es arbitrary: ctx)
  case Nil
  then show ?case by simp
next
  case (Cons x es)
  obtain edgeId ts where x: "x = (edgeId, ts)" by (cases x)
  from Cons.prems(2) obtain c1 where c1: "resolveEdgeTargets edgeId ts ctx = Inr c1"
    "resolveTargets_entries es c1 = Inr c"
    by (auto simp: x split: sum.splits)
  from Cons.IH [OF kept_resolveEdgeTargets [OF Cons.prems(1) c1(1)] c1(2)] show ?case .
qed

lemma kept_resolveTargets:
  "kept n S T ctx \<Longrightarrow> resolveTargets ctx = Inr c \<Longrightarrow> kept n S T c"
  unfolding resolveTargets_def by (rule kept_resolveTargets_entries)

section \<open>The tree of an extracted machine\<close>

lemma tree_invariant_initial: "tree_invariant (initial_context n)"
  by (simp add: tree_invariant_def initial_context_def skeleton_of_def)

lemma tree_node_skeleton:
  "tree_invariant ctx \<Longrightarrow> ctx_treeNodes ctx i = Some t \<Longrightarrow>
     \<exists>k. skeleton_of ctx i = Some (i, tn_parentId t, k)"
  unfolding tree_invariant_def by blast

lemma extraction_tree:
  assumes "extractProjectMachine_context n call = Inr ((Some d, errs), ctx)"
  shows "extracted_tree ctx (final_state n call) (root d)"
    and "final_context n call = ctx" and "root d = token n"
    and "\<exists>n'. extractProjectMachine n call = Inr (final_state n call, n')"
proof -
  define x where "x = extractState (initial_context n) (nth_opt (arguments call) 0) None ''(machine)''"
  have dr: "ctx_drawn (initial_context n) = n" by (simp add: initial_context_def)
  from assms obtain rootNode where
    rn: "fst x = Some rootNode" and
    rt: "resolveTargets (snd x) = Inr ctx" and
    d: "d = digraph.extend (ctx_digraph ctx) (digraph_def.fields (tn_uniqueId rootNode))"
    unfolding extractProjectMachine_context_def extractMachineConfig_def x_def [symmetric]
    by (cases x; cases "fst x"; cases "resolveTargets (snd x)") auto
  from extraction_grows(1) [of "initial_context n" None "nth_opt (arguments call) 0" "''(machine)''"]
    tree_invariant_initial [of n]
  have grown: "tree_invariant (snd x) \<and>
     skeleton_of (snd x) (token n) = Some (token n, None, ''(machine)'') \<and>
     (\<forall>t. fst x = Some t \<longrightarrow> ctx_treeNodes (snd x) (token n) = Some t)"
    unfolding x_def dr by blast
  with rn have inv1: "tree_invariant (snd x)" and
    skel: "skeleton_of (snd x) (token n) = Some (token n, None, ''(machine)'')" and
    root1: "ctx_treeNodes (snd x) (token n) = Some rootNode"
    by simp_all
  from kept_resolveTargets [OF kept_self [OF inv1] rt] have
    kept: "kept (ctx_drawn (snd x)) (skeleton_of (snd x)) (ctx_treeNodes (snd x)) ctx" .
  from tree_invariant_kept [OF inv1 kept] have inv: "tree_invariant ctx" .
  from kept have same: "ctx_treeNodes ctx = ctx_treeNodes (snd x)"
    by (simp add: kept_def)
  from root1 same have root: "ctx_treeNodes ctx (token n) = Some rootNode" by simp
  from tree_node_facts(1) [OF inv1 root1] have ri: "tn_uniqueId rootNode = token n" .
  from tree_node_skeleton [OF inv1 root1] skel have rp: "tn_parentId rootNode = None" by simp
  from d ri show rd: "root d = token n" by (simp add: digraph.defs digraph_def.defs)
  from d have nd: "nodes d = nodes (ctx_digraph ctx)" by (simp add: digraph.defs)
  from assms show fc: "final_context n call = ctx" by (simp add: final_context_def)
  from assms have st: "final_state n call =
      \<lparr>pms_digraph = Some d, pms_errors = errs, pms_astPaths = ctx_astPaths ctx,
       pms_idMap = invert (ctx_idToNodeIdMap ctx)\<rparr>"
    by (simp add: final_state_def extractProjectMachine_def)
  from assms st show "\<exists>n'. extractProjectMachine n call = Inr (final_state n call, n')"
    by (simp add: extractProjectMachine_def)
  from inv root rp nd rd st show "extracted_tree ctx (final_state n call) (root d)"
    by (simp add: extracted_tree_def)
qed




text \<open>
  Two pairs the amended claim leaves out, in
  \<open>createMachine({ states: { a: { states: { c: {} } }, b: {} } })\<close>, where no state
  declares an id. The descriptor of \<open>a\<close> from its child \<open>c\<close> is the empty string, which
  resolves to \<open>c\<close> itself. The descriptor of the root from \<open>a\<close> is \<open>#(machine)\<close>, the
  default id of a root, which the resolver does not know.
\<close>

lemma descriptors_left_out:
  "getBestTargetDescriptor (token 2) (token 1) (final_state 0 unnamed_states_call) = returns [] \<and>
   resolveTargetId (final_context 0 unnamed_states_call) (token 2) [] =
     Inr (Some (token 2), final_context 0 unnamed_states_call) \<and>
   getBestTargetDescriptor (token 1) (token 0) (final_state 0 unnamed_states_call) =
     returns ''#(machine)'' \<and>
   resolveTargetId (final_context 0 unnamed_states_call) (token 1) ''#(machine)'' =
     Inr (None, push_errors [transition_target_unresolved] (final_context 0 unnamed_states_call))"
proof -
  let ?ctx = "final_context 0 unnamed_states_call"
  let ?st = "final_state 0 unnamed_states_call"
  note defs = final_context_def final_state_def extractProjectMachine_def invert_def
    unnamed_states_call_def nth_opt_def resolver_defs extraction_defs
  have ex: "\<exists>d errs ctx. extractProjectMachine_context 0 unnamed_states_call =
      Inr ((Some d, errs), ctx)"
    by (simp add: unnamed_states_call_def nth_opt_def resolver_defs extraction_defs)
  then obtain d errs ctx where
    run: "extractProjectMachine_context 0 unnamed_states_call = Inr ((Some d, errs), ctx)"
    by blast
  note tree = extraction_tree [OF run]
  from tree(1) have t: "extracted_tree ?ctx ?st (token 0)" by (simp add: tree(2,3))
  have nodes: "ctx_treeNodes ?ctx (token 0) =
      Some \<lparr>tn_uniqueId = token 0, tn_parentId = None,
            tn_children = [''a'' \<mapsto> token 1, ''b'' \<mapsto> token 3]\<rparr>"
    "ctx_treeNodes ?ctx (token 1) =
      Some \<lparr>tn_uniqueId = token 1, tn_parentId = Some (token 0),
            tn_children = [''c'' \<mapsto> token 2]\<rparr>"
    "ctx_treeNodes ?ctx (token 2) =
      Some \<lparr>tn_uniqueId = token 2, tn_parentId = Some (token 1), tn_children = Map.empty\<rparr>"
    "ctx_idToNodeIdMap ?ctx = []" "ctx_errors ?ctx = []"
    by (simp_all add: defs)
  have paths: "descend ?ctx (token 0) [] = Some (token 0)"
    "descend ?ctx (token 0) [''a''] = Some (token 1)"
    "descend ?ctx (token 0) [''a'', ''c''] = Some (token 2)"
    by (simp_all add: nodes del: One_nat_def)
  have idm: "pms_idMap ?st = []"
    using extracted_treeD [OF t] nodes(4) by (auto simp: invert_def)
  have 1: "getBestTargetDescriptor (token 2) (token 1) ?st = returns []"
    using descriptor_in_tree [OF t paths(3) paths(2)] by (simp del: One_nat_def)
  have 2: "getBestTargetDescriptor (token 1) (token 0) ?st = returns ''#(machine)''"
    using descriptor_in_tree [OF t paths(2) paths(1)] idm
    by (simp add: id_or_default_def truthy_def DEFAULT_ROOT_ID_def del: One_nat_def)
  have 3: "resolveTargetId ?ctx (token 2) [] = Inr (Some (token 2), ?ctx)"
    by (simp add: resolveTargetId_def resolvePathOrigin_def nodes del: One_nat_def)
  have 4: "resolveTargetId ?ctx (token 1) ''#(machine)'' =
      Inr (None, push_errors [transition_target_unresolved] ?ctx)"
    by (simp add: resolveTargetId_def resolvePathOrigin_def nodes split_dot_plain
        del: One_nat_def)
  from 1 2 3 4 show ?thesis by simp
qed

end
